theory Spec2Isabelle
  imports Main "HOL-Library.Sublist" "HOL-Library.Multiset" "HOL-Library.Word"
begin

section \<open>JavaScript values the program works with\<close>

subsection \<open>Dates and numbers\<close>

text \<open>
  A JavaScript \<open>Date\<close> holds a time value: a whole number of milliseconds since the epoch,
  or \<open>NaN\<close> (an "Invalid Date"). \<open>getTime\<close> reads it as a number, and the arithmetic and
  comparisons of the source are those of numbers with \<open>NaN\<close>.
\<close>

datatype date = InvalidDate | Date int

datatype number = NaN | Num int

fun getTime :: "date \<Rightarrow> number" where
  "getTime InvalidDate = NaN"
| "getTime (Date t) = Num t"

fun minus_number :: "number \<Rightarrow> number \<Rightarrow> number" where
  "minus_number (Num a) (Num b) = Num (a - b)"
| "minus_number _ _ = NaN"

fun ge_number :: "number \<Rightarrow> number \<Rightarrow> bool" where
  "ge_number (Num a) (Num b) = (a \<ge> b)"
| "ge_number _ _ = False"

text \<open>\<open>new Date(d)\<close> for a Date \<open>d\<close>: a fresh Date with the time value of \<open>d\<close>.\<close>

definition Date_of_Date :: "date \<Rightarrow> date" where
  "Date_of_Date d = d"

subsection \<open>Strings\<close>

text \<open>
  A string is a sequence of UTF-16 code units. The text of a memo (title, content, tags)
  and the keywords and tags the functions are called with are such sequences. The strings
  that the program builds from digits, parses as dates, or only stores and compares (ids,
  date strings, paths) are kept as lists of 8-bit units; \<open>utf16\<close> embeds these.
\<close>

type_synonym code_unit = "16 word"
type_synonym ustring = "code_unit list"

definition utf16 :: "string \<Rightarrow> ustring" where
  "utf16 s = map of_char s"

text \<open>
  \<open>toLowerCase\<close> is the lower-casing of the Unicode standard, which works on the whole
  string: it may put two code units for one, and what it puts for a capital sigma depends
  on the letters around it. The functions that call it take it as the parameter \<open>lower\<close>.
\<close>

fun startsWith :: "'a list \<Rightarrow> 'a list \<Rightarrow> bool" where
  "startsWith s [] = True"
| "startsWith [] (k # ks) = False"
| "startsWith (c # s) (k # ks) = (c = k \<and> startsWith s ks)"

text \<open>\<open>s.includes(k)\<close>: \<open>k\<close> occurs in \<open>s\<close> as a contiguous run of code units.\<close>

fun includes_str :: "'a list \<Rightarrow> 'a list \<Rightarrow> bool" where
  "includes_str [] k = (k = [])"
| "includes_str (c # s) k = (startsWith (c # s) k \<or> includes_str s k)"

text \<open>\<open>s.substring(a, b)\<close> for non-negative integer arguments.\<close>

definition substring :: "string \<Rightarrow> nat \<Rightarrow> nat \<Rightarrow> string" where
  "substring s a b =
     (let a' = min a (length s); b' = min b (length s);
          lo = min a' b'; hi = max a' b'
      in take (hi - lo) (drop lo s))"

text \<open>
  The decimal rendering of an integer, as a template literal prints \<open>Date.now()\<close>:
  the digits, most significant first, after a minus sign for a negative number.
\<close>

definition digit_char :: "nat \<Rightarrow> char" where
  "digit_char n = char_of (48 + n)"

fun string_of_nat :: "nat \<Rightarrow> string" where
  "string_of_nat n =
     (let last_digit = [digit_char (n mod 10)]
      in if n < 10 then last_digit else string_of_nat (n div 10) @ last_digit)"

definition Number_toString :: "int \<Rightarrow> string" where
  "Number_toString i =
     (if i < 0 then CHR ''-'' # string_of_nat (nat (- i)) else string_of_nat (nat i))"

text \<open>
  A draw of \<open>Math.random()\<close> is a number in \<open>[0, 1)\<close>. The program only looks at its
  rendering in base 36, so a draw is given by the digits that \<open>toString(36)\<close> prints after
  the point (none for the draw \<open>0\<close>, which prints as \<open>0\<close>).
\<close>

type_synonym random = "nat list"

definition digit36 :: "nat \<Rightarrow> char" where
  "digit36 d = (if d < 10 then char_of (48 + d) else char_of (87 + d))"

definition toString36 :: "random \<Rightarrow> string" where
  "toString36 ds = (if ds = [] then ''0'' else ''0.'' @ map digit36 ds)"

section \<open>memo.ts: the record model\<close>

record CreateMemoInput =
  title :: ustring
  content :: ustring
  tags :: "ustring list"

record Memo = CreateMemoInput +
  id' :: string
  createdAt :: date
  updatedAt :: date

text \<open>
  \<open>UpdateMemoInput\<close>: each of the three properties may be absent; one that is present
  holds a value of its type.
\<close>

record UpdateMemoInput =
  title_upd :: "ustring option"
  content_upd :: "ustring option"
  tags_upd :: "ustring list option"

text \<open>
  \<open>generateId\<close> reads the clock (\<open>Date.now()\<close>, the argument \<open>now\<close>) and draws a random
  number (the argument \<open>r\<close>).
\<close>

definition generateId :: "int \<Rightarrow> random \<Rightarrow> string" where
  "generateId now r = ''memo_'' @ Number_toString now @ ''_'' @ substring (toString36 r) 2 9"

text \<open>
  \<open>createMemo\<close> reads the clock once for \<open>new Date()\<close> (the argument \<open>now\<close>); the call of
  \<open>generateId\<close> then reads it again (\<open>idNow\<close>) and draws \<open>r\<close>.
\<close>

definition createMemo :: "int \<Rightarrow> int \<Rightarrow> random \<Rightarrow> CreateMemoInput \<Rightarrow> Memo" where
  "createMemo now idNow r input =
     \<lparr> title = title input, content = content input, tags = tags input,
       id' = generateId idNow r, createdAt = Date now, updatedAt = Date now \<rparr>"

text \<open>
  \<open>updateMemo\<close>: the spread of \<open>memo\<close>, overwritten by the properties present in
  \<open>updates\<close>, with \<open>updatedAt\<close> set to \<open>new Date()\<close> (the clock reading \<open>now\<close>).
\<close>

definition updateMemo :: "int \<Rightarrow> Memo \<Rightarrow> UpdateMemoInput \<Rightarrow> Memo" where
  "updateMemo now memo updates =
     memo \<lparr> title := (case title_upd updates of None \<Rightarrow> title memo | Some t \<Rightarrow> t),
            content := (case content_upd updates of None \<Rightarrow> content memo | Some c \<Rightarrow> c),
            tags := (case tags_upd updates of None \<Rightarrow> tags memo | Some ts \<Rightarrow> ts),
            updatedAt := Date now \<rparr>"

subsection \<open>Arrays\<close>

text \<open>
  Arrays are mutable objects, so the functions over collections work on a heap of arrays:
  a reference is the index of a cell, \<open>filter\<close> and the spread \<open>[...a]\<close> allocate a fresh
  array, and \<open>sort\<close> overwrites the array it is called on and returns the same reference.
  The memos in an array are values: no function of the program writes into a memo.
\<close>

type_synonym ref = nat
type_synonym heap = "Memo list list"

definition alloc :: "heap \<Rightarrow> Memo list \<Rightarrow> ref \<times> heap" where
  "alloc h xs = (length h, h @ [xs])"

definition Array_filter :: "heap \<Rightarrow> ref \<Rightarrow> (Memo \<Rightarrow> bool) \<Rightarrow> ref \<times> heap" where
  "Array_filter h a p = alloc h (filter p (h ! a))"

definition Array_spread :: "heap \<Rightarrow> ref \<Rightarrow> ref \<times> heap" where
  "Array_spread h a = alloc h (h ! a)"

text \<open>
  \<open>Array.prototype.sort\<close> with a comparison function is a stable sort; a comparison result
  \<open>NaN\<close> counts as \<open>0\<close>. The model is the stable insertion sort. Where the comparison
  function is not consistent (a \<open>NaN\<close> between values that differ), the language leaves the
  order to the implementation: the result is then still a permutation held by the same
  array, but its order need not be the one of the insertion sort.
\<close>

definition SortCompare :: "('a \<Rightarrow> 'a \<Rightarrow> number) \<Rightarrow> 'a \<Rightarrow> 'a \<Rightarrow> int" where
  "SortCompare cmp x y = (case cmp x y of NaN \<Rightarrow> 0 | Num v \<Rightarrow> v)"

fun insort_by :: "('a \<Rightarrow> 'a \<Rightarrow> int) \<Rightarrow> 'a \<Rightarrow> 'a list \<Rightarrow> 'a list" where
  "insort_by c x [] = [x]"
| "insort_by c x (y # ys) = (if c x y \<le> 0 then x # y # ys else y # insort_by c x ys)"

definition sort_by :: "('a \<Rightarrow> 'a \<Rightarrow> int) \<Rightarrow> 'a list \<Rightarrow> 'a list" where
  "sort_by c xs = foldr (insort_by c) xs []"

definition Array_sort :: "heap \<Rightarrow> ref \<Rightarrow> (Memo \<Rightarrow> Memo \<Rightarrow> number) \<Rightarrow> ref \<times> heap" where
  "Array_sort h a cmp = (a, h[a := sort_by (SortCompare cmp) (h ! a)])"

text \<open>\<open>tags.some(p)\<close> and \<open>tags.includes(tag)\<close> on an array of strings.\<close>

definition Array_some :: "(ustring \<Rightarrow> bool) \<Rightarrow> ustring list \<Rightarrow> bool" where
  "Array_some p xs = list_ex p xs"

definition Array_includes :: "ustring list \<Rightarrow> ustring \<Rightarrow> bool" where
  "Array_includes xs x = (x \<in> set xs)"

subsection \<open>Search, filter, sort\<close>

definition searchMemos ::
  "(ustring \<Rightarrow> ustring) \<Rightarrow> heap \<Rightarrow> ref \<Rightarrow> ustring \<Rightarrow> ref \<times> heap" where
  "searchMemos lower h memos keyword =
     (let lowerKeyword = lower keyword
      in Array_filter h memos
           (\<lambda>memo. includes_str (lower (title memo)) lowerKeyword \<or>
                    includes_str (lower (content memo)) lowerKeyword \<or>
                    Array_some (\<lambda>tag. includes_str (lower tag) lowerKeyword) (tags memo)))"

definition filterMemosByTag :: "heap \<Rightarrow> ref \<Rightarrow> ustring \<Rightarrow> ref \<times> heap" where
  "filterMemosByTag h memos tag = Array_filter h memos (\<lambda>memo. Array_includes (tags memo) tag)"

datatype order = Asc | Desc

text \<open>The parameter \<open>order\<close> is optional (\<open>None\<close>: the argument is left out) and defaults to \<open>Desc\<close>.\<close>

definition compareByDate :: "order \<Rightarrow> Memo \<Rightarrow> Memo \<Rightarrow> number" where
  "compareByDate ord a b =
     (let aTime = getTime (Date_of_Date (createdAt a));
          bTime = getTime (Date_of_Date (createdAt b))
      in if ord = Asc then minus_number aTime bTime else minus_number bTime aTime)"

definition sortMemosByDate :: "heap \<Rightarrow> ref \<Rightarrow> order option \<Rightarrow> ref \<times> heap" where
  "sortMemosByDate h memos order =
     (let ord = (case order of None \<Rightarrow> Desc | Some v \<Rightarrow> v);
          (copy, h1) = Array_spread h memos
      in Array_sort h1 copy (compareByDate ord))"

section \<open>ISO-8601 date strings\<close>

text \<open>
  \<open>JSON.stringify\<close> writes a Date through \<open>toJSON\<close>: \<open>null\<close> for an Invalid Date, the
  string of \<open>toISOString\<close> otherwise, which is \<open>YYYY-MM-DDTHH:mm:ss.sssZ\<close> with the year as
  four digits from 0 to 9999 and as a sign and six digits outside. The calendar is the
  proleptic Gregorian one; days are counted from 1970-01-01.
\<close>

definition civil_from_days :: "int \<Rightarrow> int \<times> int \<times> int" where
  "civil_from_days z =
     (let z0 = z + 719468;
          era = z0 div 146097;
          doe = z0 mod 146097;
          c = min 3 (doe div 36524);
          doc = doe - c * 36524;
          q = min 24 (doc div 1461);
          doq = doc - q * 1461;
          yr = min 3 (doq div 365);
          doy = doq - yr * 365;
          y0 = era * 400 + c * 100 + q * 4 + yr;
          mp = (5 * doy + 2) div 153;
          d = doy - (153 * mp + 2) div 5 + 1;
          m = (if mp < 10 then mp + 3 else mp - 9);
          y = (if m \<le> 2 then y0 + 1 else y0)
      in (y, m, d))"

definition days_from_civil :: "int \<Rightarrow> int \<Rightarrow> int \<Rightarrow> int" where
  "days_from_civil y m d =
     (let y0 = (if m \<le> 2 then y - 1 else y);
          mp = (if m > 2 then m - 3 else m + 9);
          doy = (153 * mp + 2) div 5 + d - 1
      in y0 * 365 + y0 div 4 - y0 div 100 + y0 div 400 + doy - 719468)"

definition pad2 :: "nat \<Rightarrow> string" where
  "pad2 n = [digit_char (n div 10 mod 10), digit_char (n mod 10)]"

definition pad3 :: "nat \<Rightarrow> string" where
  "pad3 n = digit_char (n div 100 mod 10) # pad2 n"

definition pad4 :: "nat \<Rightarrow> string" where
  "pad4 n = digit_char (n div 1000 mod 10) # pad3 n"

definition pad6 :: "nat \<Rightarrow> string" where
  "pad6 n = digit_char (n div 100000 mod 10) # digit_char (n div 10000 mod 10) # pad4 n"

definition toISOString :: "int \<Rightarrow> string" where
  "toISOString t =
     (let days = t div 86400000;
          msInDay = t mod 86400000;
          (y, m, d) = civil_from_days days;
          year = (if 0 \<le> y \<and> y \<le> 9999 then pad4 (nat y)
                  else (if y < 0 then CHR ''-'' else CHR ''+'') # pad6 (nat \<bar>y\<bar>))
      in year @ ''-'' @ pad2 (nat m) @ ''-'' @ pad2 (nat d) @ ''T'' @
         pad2 (nat (msInDay div 3600000)) @ '':'' @
         pad2 (nat (msInDay div 60000 mod 60)) @ '':'' @
         pad2 (nat (msInDay div 1000 mod 60)) @ ''.'' @
         pad3 (nat (msInDay mod 1000)) @ ''Z'')"

definition Date_toJSON :: "date \<Rightarrow> string option" where
  "Date_toJSON d = (case d of InvalidDate \<Rightarrow> None | Date t \<Rightarrow> Some (toISOString t))"

text \<open>
  \<open>new Date(s)\<close> for a string parses \<open>s\<close>. A string in the full date-time format with legal
  elements has the time value it denotes, clipped to the range of a Date (\<open>TimeClip\<close>). What
  any other string gives is left to the implementation by the language: the parameter
  \<open>impl\<close>. \<open>new Date(null)\<close> is the epoch.
\<close>

definition digit_val :: "char \<Rightarrow> nat option" where
  "digit_val c =
     (let n = (of_char c :: nat) in if 48 \<le> n \<and> n \<le> 57 then Some (n - 48) else None)"

definition digits_val :: "string \<Rightarrow> nat option" where
  "digits_val cs =
     foldl (\<lambda>acc c. case acc of None \<Rightarrow> None
                     | Some a \<Rightarrow> (case digit_val c of None \<Rightarrow> None | Some d \<Rightarrow> Some (10 * a + d)))
           (Some 0) cs"

definition parse_ISO :: "string \<Rightarrow> int option" where
  "parse_ISO s =
     (let has_sign = (case s of [] \<Rightarrow> False | c # _ \<Rightarrow> c = CHR ''+'' \<or> c = CHR ''-'');
          negative = (case s of [] \<Rightarrow> False | c # _ \<Rightarrow> c = CHR ''-'');
          ystr = (if has_sign then take 6 (drop 1 s) else take 4 s);
          r = (if has_sign then drop 7 s else drop 4 s)
      in if length r \<noteq> 20 \<or> r ! 0 \<noteq> CHR ''-'' \<or> r ! 3 \<noteq> CHR ''-'' \<or> r ! 6 \<noteq> CHR ''T'' \<or>
            r ! 9 \<noteq> CHR '':'' \<or> r ! 12 \<noteq> CHR '':'' \<or> r ! 15 \<noteq> CHR ''.'' \<or> r ! 19 \<noteq> CHR ''Z''
         then None
         else (case (digits_val ystr, digits_val (take 2 (drop 1 r)), digits_val (take 2 (drop 4 r)),
                     digits_val (take 2 (drop 7 r)), digits_val (take 2 (drop 10 r)),
                     digits_val (take 2 (drop 13 r)), digits_val (take 3 (drop 16 r))) of
                 (Some yn, Some mn, Some dn, Some h, Some mi, Some sec, Some ms) \<Rightarrow>
                   (let y = (if negative then - int yn else int yn); m = int mn; d = int dn
                    in if (negative \<and> yn = 0) \<or> h > 23 \<or> mi > 59 \<or> sec > 59 \<or>
                          civil_from_days (days_from_civil y m d) \<noteq> (y, m, d)
                       then None
                       else Some (days_from_civil y m d * 86400000 + int h * 3600000 +
                                  int mi * 60000 + int sec * 1000 + int ms))
               | _ \<Rightarrow> None))"

definition TimeClip :: "int \<Rightarrow> date" where
  "TimeClip t = (if \<bar>t\<bar> \<le> 8640000000000000 then Date t else InvalidDate)"

definition Date_parse :: "(string \<Rightarrow> date) \<Rightarrow> string \<Rightarrow> date" where
  "Date_parse impl s = (case parse_ISO s of Some t \<Rightarrow> TimeClip t | None \<Rightarrow> impl s)"

definition Date_of_JSON :: "(string \<Rightarrow> date) \<Rightarrow> string option \<Rightarrow> date" where
  "Date_of_JSON impl v = (case v of None \<Rightarrow> Date 0 | Some s \<Rightarrow> Date_parse impl s)"

text \<open>A Date the program can hold with a timestamp in it: a time value in the range of a Date.\<close>

definition valid_date :: "date \<Rightarrow> bool" where
  "valid_date d = (case d of InvalidDate \<Rightarrow> False | Date t \<Rightarrow> \<bar>t\<bar> \<le> 8640000000000000)"

section \<open>storage.ts: the storage adapter\<close>

subsection \<open>The persisted document and the file system\<close>

text \<open>
  The file holds a JSON array of objects \<open>{id, title, content, tags, createdAt, updatedAt}\<close>,
  a date being a JSON string or \<open>null\<close>. The text of a file is taken up to formatting: it is
  either such an array, or a text on which \<open>JSON.parse\<close> or the mapping in \<open>loadMemos\<close>
  throws (\<open>NotJSON\<close>).
\<close>

record json_memo =
  j_id :: string
  j_title :: ustring
  j_content :: ustring
  j_tags :: "ustring list"
  j_createdAt :: "string option"
  j_updatedAt :: "string option"

datatype document = NotJSON | JSON "json_memo list"

datatype error = Failed_to_load | Failed_to_save

text \<open>
  The file system: the files by path, whether writing is possible (a write to a read-only or
  full disk fails), and the number of writes done so far.
\<close>

record filesystem =
  files :: "string \<rightharpoonup> document"
  writable :: bool
  writes :: nat

definition readFile :: "filesystem \<Rightarrow> string \<Rightarrow> unit + document" where
  "readFile fs path = (case files fs path of None \<Rightarrow> Inl () | Some data \<Rightarrow> Inr data)"

definition writeFile :: "filesystem \<Rightarrow> string \<Rightarrow> document \<Rightarrow> unit + filesystem" where
  "writeFile fs path data =
     (if writable fs
      then Inr (fs \<lparr> files := (files fs)(path \<mapsto> data), writes := Suc (writes fs) \<rparr>)
      else Inl ())"

definition JSON_parse :: "document \<Rightarrow> unit + json_memo list" where
  "JSON_parse data = (case data of NotJSON \<Rightarrow> Inl () | JSON parsed \<Rightarrow> Inr parsed)"

definition memo_toJSON :: "Memo \<Rightarrow> json_memo" where
  "memo_toJSON memo =
     \<lparr> j_id = id' memo, j_title = title memo, j_content = content memo, j_tags = tags memo,
       j_createdAt = Date_toJSON (createdAt memo), j_updatedAt = Date_toJSON (updatedAt memo) \<rparr>"

definition JSON_stringify :: "Memo list \<Rightarrow> document" where
  "JSON_stringify memos = JSON (map memo_toJSON memos)"

subsection \<open>MemoStorage\<close>

record MemoStorage =
  dataDir :: string
  fileName :: string
  filePath :: string

text \<open>
  The arrow function that \<open>loadMemos\<close> maps over the parsed array: the spread of the parsed
  object with the two dates turned into Date objects.
\<close>

definition memo_of_JSON :: "(string \<Rightarrow> date) \<Rightarrow> json_memo \<Rightarrow> Memo" where
  "memo_of_JSON impl memo =
     \<lparr> title = j_title memo, content = j_content memo, tags = j_tags memo, id' = j_id memo,
       createdAt = Date_of_JSON impl (j_createdAt memo),
       updatedAt = Date_of_JSON impl (j_updatedAt memo) \<rparr>"

text \<open>
  A method takes the parameter \<open>impl\<close> of the date parser where it loads, the object
  \<open>this\<close> and the file system, and returns an error (the exception it throws) or its result,
  with the file system after it when it may write.
\<close>

definition loadMemos ::
  "(string \<Rightarrow> date) \<Rightarrow> MemoStorage \<Rightarrow> filesystem \<Rightarrow> error + Memo list" where
  "loadMemos impl this fs =
     (case readFile fs (filePath this) of
        Inl _ \<Rightarrow> Inl Failed_to_load
      | Inr data \<Rightarrow>
          (case JSON_parse data of
             Inl _ \<Rightarrow> Inl Failed_to_load
           | Inr parsed \<Rightarrow> Inr (map (memo_of_JSON impl) parsed)))"

definition saveMemos :: "MemoStorage \<Rightarrow> filesystem \<Rightarrow> Memo list \<Rightarrow> error + filesystem" where
  "saveMemos this fs memos =
     (let data = JSON_stringify memos
      in case writeFile fs (filePath this) data of
           Inl _ \<Rightarrow> Inl Failed_to_save
         | Inr fs' \<Rightarrow> Inr fs')"

definition addMemo ::
  "(string \<Rightarrow> date) \<Rightarrow> MemoStorage \<Rightarrow> filesystem \<Rightarrow> Memo \<Rightarrow> error + filesystem" where
  "addMemo impl this fs memo =
     (case loadMemos impl this fs of
        Inl e \<Rightarrow> Inl e
      | Inr memos \<Rightarrow> saveMemos this fs (memos @ [memo]))"

text \<open>\<open>getMemo\<close>: \<open>None\<close> is \<open>null\<close>. A memo is an object, so \<open>find(...) || null\<close> is what \<open>find\<close> found.\<close>

definition getMemo ::
  "(string \<Rightarrow> date) \<Rightarrow> MemoStorage \<Rightarrow> filesystem \<Rightarrow> string \<Rightarrow> error + Memo option" where
  "getMemo impl this fs ident =
     (case loadMemos impl this fs of
        Inl e \<Rightarrow> Inl e
      | Inr memos \<Rightarrow> Inr (find (\<lambda>memo. id' memo = ident) memos))"

fun findIndex :: "('a \<Rightarrow> bool) \<Rightarrow> 'a list \<Rightarrow> int" where
  "findIndex p [] = - 1"
| "findIndex p (x # xs) =
     (if p x then 0 else (let i = findIndex p xs in if i = - 1 then - 1 else i + 1))"

definition updateMemo_storage ::
  "(string \<Rightarrow> date) \<Rightarrow> MemoStorage \<Rightarrow> filesystem \<Rightarrow> Memo \<Rightarrow> error + bool \<times> filesystem" where
  "updateMemo_storage impl this fs updatedMemo =
     (case loadMemos impl this fs of
        Inl e \<Rightarrow> Inl e
      | Inr memos \<Rightarrow>
          (let index = findIndex (\<lambda>memo. id' memo = id' updatedMemo) memos
           in if index = - 1 then Inr (False, fs)
              else (case saveMemos this fs (memos[nat index := updatedMemo]) of
                      Inl e \<Rightarrow> Inl e
                    | Inr fs' \<Rightarrow> Inr (True, fs'))))"

definition deleteMemo ::
  "(string \<Rightarrow> date) \<Rightarrow> MemoStorage \<Rightarrow> filesystem \<Rightarrow> string \<Rightarrow> error + bool \<times> filesystem" where
  "deleteMemo impl this fs ident =
     (case loadMemos impl this fs of
        Inl e \<Rightarrow> Inl e
      | Inr memos \<Rightarrow>
          (let filteredMemos = filter (\<lambda>memo. id' memo \<noteq> ident) memos
           in if length filteredMemos = length memos then Inr (False, fs)
              else (case saveMemos this fs filteredMemos of
                      Inl e \<Rightarrow> Inl e
                    | Inr fs' \<Rightarrow> Inr (True, fs'))))"

definition clearAll :: "MemoStorage \<Rightarrow> filesystem \<Rightarrow> error + filesystem" where
  "clearAll this fs = saveMemos this fs []"

section \<open>Notions of the specification\<close>



text \<open>
  \<open>toLowerCase\<close> on the strings made of ASCII letters, digits and spaces and of the Greek
  sigmas: a capital \<open>A\<close>..\<open>Z\<close> moves up by \<open>0x20\<close>; the capital sigma \<open>U+03A3\<close> becomes
  the final sigma \<open>U+03C2\<close> when a letter comes before it and none after it, and the
  small sigma \<open>U+03C3\<close> otherwise; every other unit stays.
\<close>

definition cased :: "code_unit \<Rightarrow> bool" where
  "cased c = ((0x41 \<le> c \<and> c \<le> 0x5A) \<or> (0x61 \<le> c \<and> c \<le> 0x7A) \<or>
              c = 0x3A3 \<or> c = 0x3C2 \<or> c = 0x3C3)"

definition lower_unit :: "code_unit \<Rightarrow> code_unit" where
  "lower_unit c = (if 0x41 \<le> c \<and> c \<le> 0x5A then c + 0x20 else c)"

fun lower_from :: "bool \<Rightarrow> ustring \<Rightarrow> ustring" where
  "lower_from after_letter [] = []"
| "lower_from after_letter (c # cs) =
     (if c = 0x3A3
      then (if after_letter \<and> \<not> (case cs of [] \<Rightarrow> False | d # _ \<Rightarrow> cased d)
            then 0x3C2 else 0x3C3) # lower_from True cs
      else lower_unit c # lower_from (cased c) cs)"

definition toLowerCase_sigma :: "ustring \<Rightarrow> ustring" where
  "toLowerCase_sigma s = lower_from False s"

text \<open>The creation time of a memo whose \<open>createdAt\<close> is not an Invalid Date.\<close>

definition created :: "Memo \<Rightarrow> int" where
  "created m = (case createdAt m of Date t \<Rightarrow> t | InvalidDate \<Rightarrow> 0)"

text \<open>An implementation of the date parser that recognises the standard format only.\<close>

definition standard_only :: "string \<Rightarrow> date" where
  "standard_only s = InvalidDate"

section \<open>Sample data\<close>

abbreviation (input) memo_ts :: Memo where
  "memo_ts \<equiv> \<lparr> title = utf16 ''TypeScript Tutorial'', content = utf16 ''Learn TypeScript'',
                tags = [utf16 ''coding''], id' = ''memo_1000_a'',
                createdAt = Date 1000, updatedAt = Date 1000 \<rparr>"

abbreviation (input) memo_meeting :: Memo where
  "memo_meeting \<equiv> \<lparr> title = utf16 ''Meeting Notes'', content = utf16 ''Discuss project timeline'',
                     tags = [utf16 ''work''], id' = ''memo_2000_b'',
                     createdAt = Date 2000, updatedAt = Date 2000 \<rparr>"

abbreviation (input) memo_shopping :: Memo where
  "memo_shopping \<equiv> \<lparr> title = utf16 ''Shopping List'', content = utf16 ''Buy groceries'',
                      tags = [utf16 ''personal''], id' = ''memo_3000_c'',
                      createdAt = Date 3000, updatedAt = Date 3000 \<rparr>"

abbreviation (input) memo_undated :: Memo where
  "memo_undated \<equiv> \<lparr> title = utf16 ''Meeting Notes'', content = utf16 ''Discuss project timeline'',
                     tags = [utf16 ''work''], id' = ''memo_2000_b'',
                     createdAt = InvalidDate, updatedAt = InvalidDate \<rparr>"


abbreviation (input) store :: MemoStorage where
  "store \<equiv> \<lparr> dataDir = ''data'', fileName = ''memos.json'', filePath = ''data/memos.json'' \<rparr>"

abbreviation (input) disk :: "json_memo list \<Rightarrow> nat \<Rightarrow> filesystem" where
  "disk doc n \<equiv> \<lparr> files = [''data/memos.json'' \<mapsto> JSON doc], writable = True, writes = n \<rparr>"

abbreviation (input) json_ts :: json_memo where
  "json_ts \<equiv> \<lparr> j_id = ''memo_1000_a'', j_title = utf16 ''TypeScript Tutorial'',
                j_content = utf16 ''Learn TypeScript'', j_tags = [utf16 ''coding''],
                j_createdAt = Some ''1970-01-01T00:00:01.000Z'',
                j_updatedAt = Some ''1970-01-01T00:00:01.000Z'' \<rparr>"

abbreviation (input) json_meeting :: json_memo where
  "json_meeting \<equiv> \<lparr> j_id = ''memo_2000_b'', j_title = utf16 ''Meeting Notes'',
                     j_content = utf16 ''Discuss project timeline'', j_tags = [utf16 ''work''],
                     j_createdAt = Some ''1970-01-01T00:00:02.000Z'',
                     j_updatedAt = Some ''1970-01-01T00:00:02.000Z'' \<rparr>"

abbreviation (input) json_undated :: json_memo where
  "json_undated \<equiv> \<lparr> j_id = ''memo_2000_b'', j_title = utf16 ''Meeting Notes'',
                     j_content = utf16 ''Discuss project timeline'', j_tags = [utf16 ''work''],
                     j_createdAt = None, j_updatedAt = None \<rparr>"

section \<open>Identifiers\<close>

declare string_of_nat.simps [simp del]

lemma of_char_digit_char: "k < 10 \<Longrightarrow> (of_char (digit_char k) :: nat) = 48 + k"
  by (simp add: digit_char_def)

lemma digit_val_digit: "k < 10 \<Longrightarrow> digit_val (digit_char k) = Some k"
  by (simp add: digit_val_def digit_char_def Let_def)

lemma digits_val_snoc:
  "digits_val (xs @ [c]) =
     (case digits_val xs of None \<Rightarrow> None
      | Some a \<Rightarrow> (case digit_val c of None \<Rightarrow> None | Some d \<Rightarrow> Some (10 * a + d)))"
  by (simp add: digits_val_def)

lemma digits_val_single: "digits_val [c] = (case digit_val c of None \<Rightarrow> None | Some d \<Rightarrow> Some d)"
  by (simp add: digits_val_def split: option.splits)

lemma digits_val_string_of_nat: "digits_val (string_of_nat n) = Some n"
proof (induction n rule: string_of_nat.induct)
  case (1 n)
  show ?case
  proof (cases "n < 10")
    case True
    then show ?thesis
      by (subst string_of_nat.simps) (simp add: digits_val_single digit_val_digit)
  next
    case False
    with 1 have "digits_val (string_of_nat (n div 10)) = Some (n div 10)" by simp
    with False show ?thesis
      by (subst string_of_nat.simps) (simp add: digits_val_snoc digit_val_digit)
  qed
qed

lemma string_of_nat_inj: "string_of_nat a = string_of_nat b \<Longrightarrow> a = b"
  by (metis digits_val_string_of_nat option.inject)

lemma string_of_nat_chars: "c \<in> set (string_of_nat n) \<Longrightarrow> 48 \<le> (of_char c :: nat) \<and> (of_char c :: nat) \<le> 57"
proof (induction n rule: string_of_nat.induct)
  case (1 n)
  show ?case
  proof (cases "n < 10")
    case True
    with 1(2) show ?thesis
      by (subst (asm) string_of_nat.simps) (auto simp: of_char_digit_char)
  next
    case False
    with 1 show ?thesis
      by (subst (asm) (2) string_of_nat.simps) (auto simp: of_char_digit_char)
  qed
qed

lemma Number_toString_chars:
  "c \<in> set (Number_toString i) \<Longrightarrow> c \<noteq> CHR ''_''"
  using string_of_nat_chars [of c] by (auto simp: Number_toString_def split: if_splits)

lemma minus_notin_string_of_nat: "CHR ''-'' \<notin> set (string_of_nat n)"
  using string_of_nat_chars [of "CHR ''-''" n] by auto

lemma Number_toString_inj: "Number_toString i = Number_toString j \<Longrightarrow> i = j"
proof -
  assume eq: "Number_toString i = Number_toString j"
  have neq: "\<And>n m. CHR ''-'' # string_of_nat n \<noteq> string_of_nat m"
    by (metis list.set_intros(1) minus_notin_string_of_nat)
  show ?thesis
  proof (cases "i < 0"; cases "j < 0")
    assume "i < 0" "j < 0"
    with eq have "nat (- i) = nat (- j)"
      by (simp add: Number_toString_def string_of_nat_inj)
    with \<open>i < 0\<close> \<open>j < 0\<close> show ?thesis by simp
  next
    assume "i < 0" "\<not> j < 0"
    with eq neq show ?thesis by (simp add: Number_toString_def)
  next
    assume "\<not> i < 0" "j < 0"
    with eq neq [of "nat (- j)" "nat i"] show ?thesis by (simp add: Number_toString_def)
  next
    assume "\<not> i < 0" "\<not> j < 0"
    with eq have "nat i = nat j"
      by (simp add: Number_toString_def string_of_nat_inj)
    with \<open>\<not> i < 0\<close> \<open>\<not> j < 0\<close> show ?thesis by simp
  qed
qed

lemma append_sep_eq:
  "c \<notin> set a \<Longrightarrow> c \<notin> set b \<Longrightarrow> a @ c # s = b @ c # t \<Longrightarrow> a = b \<and> s = t"
proof (induction a arbitrary: b)
  case Nil
  then show ?case by (cases b) auto
next
  case (Cons x a)
  then show ?case by (cases b) auto
qed

lemma generateId_eq_iff:
  "generateId t1 r1 = generateId t2 r2 \<longleftrightarrow>
     t1 = t2 \<and> substring (toString36 r1) 2 9 = substring (toString36 r2) 2 9"
proof
  assume "generateId t1 r1 = generateId t2 r2"
  then have "Number_toString t1 @ CHR ''_'' # substring (toString36 r1) 2 9 =
             Number_toString t2 @ CHR ''_'' # substring (toString36 r2) 2 9"
    by (simp add: generateId_def)
  then have "Number_toString t1 = Number_toString t2 \<and>
             substring (toString36 r1) 2 9 = substring (toString36 r2) 2 9"
    by (rule append_sep_eq [rotated 2]) (use Number_toString_chars in blast)+
  then show "t1 = t2 \<and> substring (toString36 r1) 2 9 = substring (toString36 r2) 2 9"
    by (simp add: Number_toString_inj)
next
  assume "t1 = t2 \<and> substring (toString36 r1) 2 9 = substring (toString36 r2) 2 9"
  then show "generateId t1 r1 = generateId t2 r2"
    by (simp add: generateId_def)
qed

lemma createMemo_ids_distinct_iff:
  "id' (createMemo now1 idNow1 r1 input1) \<noteq> id' (createMemo now2 idNow2 r2 input2) \<longleftrightarrow>
     idNow1 \<noteq> idNow2 \<or> substring (toString36 r1) 2 9 \<noteq> substring (toString36 r2) 2 9"
  by (simp add: createMemo_def generateId_eq_iff)

text \<open>
  C6: any two memos created in rapid succession have distinct ids, also within one
  millisecond. The code does not keep this: two calls of \<open>createMemo\<close> that read the same
  millisecond (\<open>1700000000000\<close>) and draw random numbers whose renderings in base 36 agree in
  their first seven digits (\<open>0.12345678\<close> and \<open>0.12345679\<close>) return the same id,
  \<open>memo_1700000000000_1234567\<close>.
\<close>

theorem createMemo_ids_collide:
  "id' (createMemo 1700000000000 1700000000000 [1, 2, 3, 4, 5, 6, 7, 8]
          \<lparr> title = utf16 ''Test'', content = utf16 ''Test'', tags = [] \<rparr>) =
   id' (createMemo 1700000000000 1700000000000 [1, 2, 3, 4, 5, 6, 7, 9]
          \<lparr> title = utf16 ''Test'', content = utf16 ''Test'', tags = [] \<rparr>)"
  by (simp add: createMemo_def generateId_def toString36_def substring_def)

section \<open>createMemo and updateMemo\<close>

text \<open>
  C7: for every input, \<open>createMemo\<close> returns a memo whose id is not empty, whose title,
  content and tags are those of the input, and whose \<open>createdAt\<close> equals its \<open>updatedAt\<close>
  (both the clock reading of the call).
\<close>

theorem createMemo_fields:
  "id' (createMemo now idNow r input) \<noteq> [] \<and>
   title (createMemo now idNow r input) = title input \<and>
   content (createMemo now idNow r input) = content input \<and>
   tags (createMemo now idNow r input) = tags input \<and>
   createdAt (createMemo now idNow r input) = updatedAt (createMemo now idNow r input) \<and>
   createdAt (createMemo now idNow r input) = Date now"
  by (simp add: createMemo_def generateId_def)

text \<open>
  What \<open>updateMemo\<close> keeps and what it overwrites: only the fields present in the updates
  are overwritten, \<open>id\<close> and \<open>createdAt\<close> are kept, \<open>updatedAt\<close> is the clock reading of the
  call, and with no field present every field but \<open>updatedAt\<close> is kept.
\<close>

lemma updateMemo_frame:
  "id' (updateMemo now m u) = id' m \<and>
   createdAt (updateMemo now m u) = createdAt m \<and>
   title (updateMemo now m u) = (case title_upd u of None \<Rightarrow> title m | Some t \<Rightarrow> t) \<and>
   content (updateMemo now m u) = (case content_upd u of None \<Rightarrow> content m | Some c \<Rightarrow> c) \<and>
   tags (updateMemo now m u) = (case tags_upd u of None \<Rightarrow> tags m | Some ts \<Rightarrow> ts) \<and>
   updatedAt (updateMemo now m u) = Date now \<and>
   updateMemo now m \<lparr> title_upd = None, content_upd = None, tags_upd = None \<rparr> =
     m \<lparr> updatedAt := Date now \<rparr>"
  by (simp add: updateMemo_def)

text \<open>
  C2: for every memo, \<open>updateMemo\<close> keeps the fields that the updates leave out and the
  \<open>updatedAt\<close> of the result is at least that of the memo. The code does not keep the
  order: it takes the clock reading as it is, so for a memo whose \<open>updatedAt\<close>
  (\<open>1700000000000\<close>) lies after the clock reading of the call (\<open>1699999999000\<close>, a clock set
  back by a second) the \<open>updatedAt\<close> of the result is the earlier one.
\<close>

theorem updateMemo_updatedAt_earlier:
  "\<not> ge_number
        (getTime (updatedAt (updateMemo 1699999999000
           \<lparr> title = utf16 ''t'', content = utf16 ''c'', tags = [], id' = ''memo_1700000000000_a'',
             createdAt = Date 1700000000000, updatedAt = Date 1700000000000 \<rparr>
           \<lparr> title_upd = None, content_upd = None, tags_upd = None \<rparr>)))
        (getTime (updatedAt
           \<lparr> title = utf16 ''t'', content = utf16 ''c'', tags = [], id' = ''memo_1700000000000_a'',
             createdAt = Date 1700000000000, updatedAt = Date 1700000000000 \<rparr>))"
  by (simp add: updateMemo_def)

section \<open>Search and filter\<close>

lemma alloc_fresh:
  "alloc h xs = (r, h') \<Longrightarrow> r = length h \<and> h' ! r = xs \<and> (\<forall>a<length h. h' ! a = h ! a)"
  by (auto simp: alloc_def nth_append)

lemma Array_filter_result:
  assumes "Array_filter h a p = (r, h')"
  shows "h' ! r = filter p (h ! a)" and "r = length h" and "\<forall>b<length h. h' ! b = h ! b"
  using assms alloc_fresh [of h "filter p (h ! a)" r h'] by (auto simp: Array_filter_def)

lemma startsWith_prefix: "startsWith s k \<longleftrightarrow> prefix k s"
  by (induction s k rule: startsWith.induct) auto

lemma includes_str_sublist: "includes_str s k \<longleftrightarrow> sublist k s"
  by (induction s) (simp_all add: startsWith_prefix sublist_Cons_right)







text \<open>
  C9: \<open>filterMemosByTag\<close> returns a new array holding exactly the memos whose tag list has
  the tag as a member (equality of strings, so case matters); the result is a subsequence
  of the input in the original order, and every array there was, the input among them, is
  left as it was.
\<close>

theorem filterMemosByTag_exact:
  assumes "memos < length h" and "filterMemosByTag h memos tag = (r, h')"
  shows "h' ! r = filter (\<lambda>m. tag \<in> set (tags m)) (h ! memos) \<and>
         subseq (h' ! r) (h ! memos) \<and>
         r \<noteq> memos \<and> (\<forall>a<length h. h' ! a = h ! a)"
proof -
  from assms(2) have f: "Array_filter h memos (\<lambda>memo. Array_includes (tags memo) tag) = (r, h')"
    by (simp add: filterMemosByTag_def)
  from Array_filter_result [OF f] assms(1) show ?thesis
    by (simp add: Array_includes_def)
qed

theorem filterMemosByTag_exact_witness:
  "(0::nat) < length [[memo_ts, memo_meeting, memo_shopping]] \<and>
   filterMemosByTag [[memo_ts, memo_meeting, memo_shopping]] 0 (utf16 ''work'') =
     (1, [[memo_ts, memo_meeting, memo_shopping], [memo_meeting]]) \<and>
   [memo_meeting] =
     filter (\<lambda>m. utf16 ''work'' \<in> set (tags m)) [memo_ts, memo_meeting, memo_shopping] \<and>
   subseq [memo_meeting] [memo_ts, memo_meeting, memo_shopping] \<and>
   filter (\<lambda>m. utf16 ''Work'' \<in> set (tags m)) [memo_ts, memo_meeting, memo_shopping] = []"
proof -
  have run: "filterMemosByTag [[memo_ts, memo_meeting, memo_shopping]] 0 (utf16 ''work'') =
               (1, [[memo_ts, memo_meeting, memo_shopping], [memo_meeting]])"
    by code_simp
  have other: "filter (\<lambda>m. utf16 ''Work'' \<in> set (tags m))
                 [memo_ts, memo_meeting, memo_shopping] = []"
    by code_simp
  have ref: "(0::nat) < length [[memo_ts, memo_meeting, memo_shopping]]" by simp
  from filterMemosByTag_exact [OF ref run] run ref other show ?thesis by simp
qed

text \<open>
  C10: with the empty string as keyword, \<open>searchMemos\<close> returns (in a new array) the whole
  collection, and the input array is left as it was. (The lower-case form of the empty
  string is the empty string.)
\<close>

theorem searchMemos_empty_keyword:
  assumes "memos < length h" and "lower [] = []" and "searchMemos lower h memos [] = (r, h')"
  shows "h' ! r = h ! memos \<and> h' ! memos = h ! memos"
proof -
  let ?p = "\<lambda>memo. includes_str (lower (title memo)) (lower []) \<or>
                    includes_str (lower (content memo)) (lower []) \<or>
                    Array_some (\<lambda>tag. includes_str (lower tag) (lower [])) (tags memo)"
  from assms(3) have f: "Array_filter h memos ?p = (r, h')"
    by (simp add: searchMemos_def Let_def)
  have "includes_str s []" for s :: ustring
    by (simp add: includes_str_sublist)
  then have "filter ?p (h ! memos) = h ! memos"
    by (simp add: assms(2))
  with Array_filter_result [OF f] assms(1) show ?thesis by simp
qed

theorem searchMemos_empty_keyword_witness:
  "(0::nat) < length [[memo_ts, memo_meeting, memo_shopping]] \<and>
   toLowerCase_sigma [] = [] \<and>
   searchMemos toLowerCase_sigma [[memo_ts, memo_meeting, memo_shopping]] 0 [] =
     (1, [[memo_ts, memo_meeting, memo_shopping], [memo_ts, memo_meeting, memo_shopping]]) \<and>
   [[memo_ts, memo_meeting, memo_shopping], [memo_ts, memo_meeting, memo_shopping]] ! 1 =
     [[memo_ts, memo_meeting, memo_shopping]] ! 0"
proof -
  have run: "searchMemos toLowerCase_sigma [[memo_ts, memo_meeting, memo_shopping]] 0 [] =
               (1, [[memo_ts, memo_meeting, memo_shopping],
                    [memo_ts, memo_meeting, memo_shopping]])"
    by code_simp
  have ref: "(0::nat) < length [[memo_ts, memo_meeting, memo_shopping]]" by simp
  have empty: "toLowerCase_sigma [] = []" by (simp add: toLowerCase_sigma_def)
  from searchMemos_empty_keyword [OF ref empty run] run ref empty show ?thesis by simp
qed

section \<open>Sorting by date\<close>

lemma insort_by_asc:
  "createdAt x \<noteq> InvalidDate \<Longrightarrow> \<forall>y\<in>set ys. createdAt y \<noteq> InvalidDate \<Longrightarrow>
   insort_by (SortCompare (compareByDate Asc)) x ys = insort_key created x ys"
  by (induction ys)
     (auto simp: SortCompare_def compareByDate_def created_def Date_of_Date_def Let_def
           split: date.splits)

lemma insort_by_desc:
  "createdAt x \<noteq> InvalidDate \<Longrightarrow> \<forall>y\<in>set ys. createdAt y \<noteq> InvalidDate \<Longrightarrow>
   insort_by (SortCompare (compareByDate Desc)) x ys = insort_key (\<lambda>m. - created m) x ys"
  by (induction ys)
     (auto simp: SortCompare_def compareByDate_def created_def Date_of_Date_def Let_def
           split: date.splits)

lemma sort_by_asc:
  "\<forall>y\<in>set xs. createdAt y \<noteq> InvalidDate \<Longrightarrow>
   sort_by (SortCompare (compareByDate Asc)) xs = sort_key created xs"
proof (induction xs)
  case Nil
  then show ?case by (simp add: sort_by_def)
next
  case (Cons x xs)
  then have "sort_by (SortCompare (compareByDate Asc)) xs = sort_key created xs" by simp
  moreover have "\<forall>y\<in>set (sort_key created xs). createdAt y \<noteq> InvalidDate"
    using Cons.prems by simp
  ultimately show ?case
    using Cons.prems insort_by_asc [of x "sort_key created xs"]
    by (simp add: sort_by_def)
qed

lemma sort_by_desc:
  "\<forall>y\<in>set xs. createdAt y \<noteq> InvalidDate \<Longrightarrow>
   sort_by (SortCompare (compareByDate Desc)) xs = sort_key (\<lambda>m. - created m) xs"
proof (induction xs)
  case Nil
  then show ?case by (simp add: sort_by_def)
next
  case (Cons x xs)
  then have "sort_by (SortCompare (compareByDate Desc)) xs = sort_key (\<lambda>m. - created m) xs"
    by simp
  moreover have "\<forall>y\<in>set (sort_key (\<lambda>m. - created m) xs). createdAt y \<noteq> InvalidDate"
    using Cons.prems by simp
  ultimately show ?case
    using Cons.prems insort_by_desc [of x "sort_key (\<lambda>m. - created m) xs"]
    by (simp add: sort_by_def)
qed

lemma sortMemosByDate_result:
  assumes "memos < length h" and "sortMemosByDate h memos ord = (r, h')"
  shows "h' ! r = sort_by (SortCompare (compareByDate (case ord of None \<Rightarrow> Desc | Some v \<Rightarrow> v)))
                    (h ! memos)"
    and "r = length h" and "\<forall>a<length h. h' ! a = h ! a"
  using assms
  by (auto simp: sortMemosByDate_def Array_spread_def Array_sort_def alloc_def Let_def nth_append)

lemma sorted_asc: "sorted_wrt (\<lambda>a b. created a \<le> created b) (sort_key created xs)"
  using sorted_sort_key [of created xs] by (simp add: sorted_map)

lemma sorted_desc: "sorted_wrt (\<lambda>a b. created a \<ge> created b) (sort_key (\<lambda>m. - created m) xs)"
  using sorted_sort_key [of "\<lambda>m. - created m" xs] by (simp add: sorted_map)

lemma stable_desc:
  "filter (\<lambda>m. created m = t) (sort_key (\<lambda>m. - created m) xs) = filter (\<lambda>m. created m = t) xs"
  using sort_key_stable [of "\<lambda>m. - created m" "- t" xs] by simp

lemma mset_insort_by: "mset (insort_by c x ys) = add_mset x (mset ys)"
  by (induction ys) simp_all

lemma mset_sort_by: "mset (sort_by c xs) = mset xs"
  by (induction xs) (simp_all add: sort_by_def mset_insort_by)

text \<open>
  C5, as stated: for every collection the result is sorted by \<open>createdAt\<close>. It fails when a
  memo carries an Invalid Date: the comparison with it is \<open>NaN\<close>, which counts as "equal",
  and the memo created at 3000 stays before the one created at 1000 in the ascending result.
\<close>

theorem sortMemosByDate_invalid_date:
  "sortMemosByDate [[memo_shopping, memo_undated, memo_ts]] 0 (Some Asc) =
     (1, [[memo_shopping, memo_undated, memo_ts], [memo_shopping, memo_undated, memo_ts]])"
  by code_simp

text \<open>
  C5, amended: for every collection, \<open>sortMemosByDate\<close> returns a new array that is a
  permutation of the input and leaves every array there was, the input among them, as it
  was; when no \<open>createdAt\<close> of the collection is an Invalid Date, the new array is sorted by
  \<open>createdAt\<close>, ascending for \<open>asc\<close> and descending for \<open>desc\<close> and when the order is left
  out, with memos of equal \<open>createdAt\<close> in their input order (stable), so that three memos
  created at \<open>t1 < t2 < t3\<close> come out as \<open>[t3, t2, t1]\<close> by default and \<open>[t1, t2, t3]\<close>
  ascending.
\<close>

theorem sortMemosByDate_stable_sort:
  assumes "memos < length h"
    and "sortMemosByDate h memos ord = (r, h')"
  shows "mset (h' ! r) = mset (h ! memos) \<and>
         r \<noteq> memos \<and> (\<forall>a<length h. h' ! a = h ! a) \<and>
         ((\<forall>m \<in> set (h ! memos). createdAt m \<noteq> InvalidDate) \<longrightarrow>
            (ord = Some Asc \<longrightarrow> sorted_wrt (\<lambda>a b. created a \<le> created b) (h' ! r)) \<and>
            (ord \<noteq> Some Asc \<longrightarrow> sorted_wrt (\<lambda>a b. created a \<ge> created b) (h' ! r)) \<and>
            (\<forall>t. filter (\<lambda>m. created m = t) (h' ! r) = filter (\<lambda>m. created m = t) (h ! memos)) \<and>
            (\<forall>a b c. h ! memos = [a, b, c] \<and> created a < created b \<and> created b < created c \<longrightarrow>
               h' ! r = (if ord = Some Asc then [a, b, c] else [c, b, a])))"
proof -
  note res = sortMemosByDate_result [OF assms]
  from res(1) have perm: "mset (h' ! r) = mset (h ! memos)"
    by (simp add: mset_sort_by)
  from res(2,3) assms(1) have frame: "r \<noteq> memos" "\<forall>a<length h. h' ! a = h ! a"
    by simp_all
  have ordered:
    "(ord = Some Asc \<longrightarrow> sorted_wrt (\<lambda>a b. created a \<le> created b) (h' ! r)) \<and>
     (ord \<noteq> Some Asc \<longrightarrow> sorted_wrt (\<lambda>a b. created a \<ge> created b) (h' ! r)) \<and>
     (\<forall>t. filter (\<lambda>m. created m = t) (h' ! r) = filter (\<lambda>m. created m = t) (h ! memos)) \<and>
     (\<forall>a b c. h ! memos = [a, b, c] \<and> created a < created b \<and> created b < created c \<longrightarrow>
        h' ! r = (if ord = Some Asc then [a, b, c] else [c, b, a]))"
    if dated: "\<forall>m \<in> set (h ! memos). createdAt m \<noteq> InvalidDate"
  proof (cases "ord = Some Asc")
    case True
    with res(1) dated have sorted: "h' ! r = sort_key created (h ! memos)"
      by (simp add: sort_by_asc)
    have "\<forall>a b c. h ! memos = [a, b, c] \<and> created a < created b \<and> created b < created c \<longrightarrow>
            h' ! r = [a, b, c]"
      using sorted by auto
    with True sorted show ?thesis
      by (simp add: sorted_asc sort_key_stable)
  next
    case False
    then have "(case ord of None \<Rightarrow> Desc | Some v \<Rightarrow> v) = Desc"
      by (cases ord) (auto intro: order.exhaust)
    with res(1) dated have sorted: "h' ! r = sort_key (\<lambda>m. - created m) (h ! memos)"
      by (simp add: sort_by_desc)
    have "\<forall>a b c. h ! memos = [a, b, c] \<and> created a < created b \<and> created b < created c \<longrightarrow>
            h' ! r = [c, b, a]"
      using sorted by auto
    with False sorted show ?thesis
      by (simp add: sorted_desc stable_desc)
  qed
  with perm frame show ?thesis by blast
qed

theorem sortMemosByDate_stable_sort_witness:
  "(0::nat) < length [[memo_meeting, memo_ts, memo_shopping]] \<and>
   createdAt memo_meeting \<noteq> InvalidDate \<and> createdAt memo_ts \<noteq> InvalidDate \<and>
   createdAt memo_shopping \<noteq> InvalidDate \<and>
   sortMemosByDate [[memo_meeting, memo_ts, memo_shopping]] 0 None =
     (1, [[memo_meeting, memo_ts, memo_shopping], [memo_shopping, memo_meeting, memo_ts]]) \<and>
   sorted_wrt (\<lambda>a b. created a \<ge> created b) [memo_shopping, memo_meeting, memo_ts] \<and>
   mset [memo_shopping, memo_meeting, memo_ts] = mset [memo_meeting, memo_ts, memo_shopping]"
proof -
  let ?h = "[[memo_meeting, memo_ts, memo_shopping]]"
  have run: "sortMemosByDate ?h 0 None =
               (1, [[memo_meeting, memo_ts, memo_shopping],
                    [memo_shopping, memo_meeting, memo_ts]])"
    by code_simp
  have ref: "(0::nat) < length ?h" by simp
  have dated: "\<forall>m \<in> set (?h ! 0). createdAt m \<noteq> InvalidDate"
    by simp
  from sortMemosByDate_stable_sort [OF ref run] dated
  have "mset ([[memo_meeting, memo_ts, memo_shopping], [memo_shopping, memo_meeting, memo_ts]] ! 1) =
          mset (?h ! 0)"
    and "sorted_wrt (\<lambda>a b. created a \<ge> created b)
          ([[memo_meeting, memo_ts, memo_shopping], [memo_shopping, memo_meeting, memo_ts]] ! 1)"
    by blast+
  then have "mset [memo_shopping, memo_meeting, memo_ts] = mset [memo_meeting, memo_ts, memo_shopping]"
    and "sorted_wrt (\<lambda>a b. created a \<ge> created b) [memo_shopping, memo_meeting, memo_ts]"
    by simp_all
  with run ref show ?thesis by simp
qed

section \<open>The storage adapter\<close>

lemma loadMemos_Inr:
  "loadMemos impl this fs = Inr memos \<longleftrightarrow>
     (\<exists>parsed. files fs (filePath this) = Some (JSON parsed) \<and> memos = map (memo_of_JSON impl) parsed)"
  by (auto simp: loadMemos_def readFile_def JSON_parse_def split: option.splits document.splits)

lemma saveMemos_writable:
  "writable fs \<Longrightarrow>
   saveMemos this fs memos =
     Inr (fs \<lparr> files := (files fs)(filePath this \<mapsto> JSON_stringify memos),
               writes := Suc (writes fs) \<rparr>)"
  by (simp add: saveMemos_def writeFile_def)

lemma saveMemos_not_writable: "\<not> writable fs \<Longrightarrow> saveMemos this fs memos = Inl Failed_to_save"
  by (simp add: saveMemos_def writeFile_def)

lemma loadMemos_after_write:
  "loadMemos impl this (fs \<lparr> files := (files fs)(filePath this \<mapsto> JSON_stringify memos), writes := n \<rparr>) =
     Inr (map (\<lambda>m. memo_of_JSON impl (memo_toJSON m)) memos)"
  by (simp add: loadMemos_def readFile_def JSON_parse_def JSON_stringify_def comp_def)

lemma id_reloaded: "id' (memo_of_JSON impl (memo_toJSON m)) = id' m"
  by (simp add: memo_of_JSON_def memo_toJSON_def)

lemma findIndex_ge: "- 1 \<le> findIndex p xs"
  by (induction xs) (auto simp: Let_def)

lemma findIndex_none: "findIndex p xs = - 1 \<longleftrightarrow> (\<forall>x\<in>set xs. \<not> p x)"
proof (induction xs)
  case Nil
  then show ?case by simp
next
  case (Cons x xs)
  with findIndex_ge [of p xs] show ?case by (auto simp: Let_def)
qed

lemma findIndex_first:
  "\<exists>x\<in>set xs. p x \<Longrightarrow>
   \<exists>i<length xs. findIndex p xs = int i \<and> p (xs ! i) \<and> (\<forall>j<i. \<not> p (xs ! j))"
proof (induction xs)
  case Nil
  then show ?case by simp
next
  case (Cons x xs)
  show ?case
  proof (cases "p x")
    case True
    then show ?thesis by (intro exI [of _ 0]) simp
  next
    case False
    with Cons.prems have "\<exists>x\<in>set xs. p x" by simp
    from Cons.IH [OF this] obtain i where i: "i < length xs" "findIndex p xs = int i"
      "p (xs ! i)" "\<forall>j<i. \<not> p (xs ! j)" by blast
    with False show ?thesis
      by (intro exI [of _ "Suc i"]) (auto simp: Let_def less_Suc_eq_0_disj)
  qed
qed

lemma distinct_once:
  "distinct xs \<Longrightarrow> x \<in> set xs \<Longrightarrow> length (filter (\<lambda>y. y = x) xs) = 1"
proof (induction xs)
  case Nil
  then show ?case by simp
next
  case (Cons a xs)
  show ?case
  proof (cases "a = x")
    case True
    with Cons.prems have "filter (\<lambda>y. y = x) xs = []"
      by (auto simp: filter_empty_conv)
    with True show ?thesis by simp
  next
    case False
    with Cons show ?thesis by simp
  qed
qed

lemma iso_1000: "toISOString 1000 = ''1970-01-01T00:00:01.000Z''"
  by code_simp
lemma iso_2000: "toISOString 2000 = ''1970-01-01T00:00:02.000Z''"
  by code_simp
lemma parse_1000: "parse_ISO ''1970-01-01T00:00:01.000Z'' = Some 1000"
  by code_simp
lemma parse_2000: "parse_ISO ''1970-01-01T00:00:02.000Z'' = Some 2000"
  by code_simp

lemma sample_of_JSON:
  "memo_of_JSON impl json_ts = memo_ts" "memo_of_JSON impl json_meeting = memo_meeting"
  by (simp_all add: memo_of_JSON_def Date_of_JSON_def Date_parse_def parse_1000 parse_2000
        TimeClip_def)

lemma sample_toJSON:
  "memo_toJSON memo_ts = json_ts" "memo_toJSON memo_meeting = json_meeting"
  by (simp_all add: memo_toJSON_def Date_toJSON_def iso_1000 iso_2000)

lemma sample_load:
  "loadMemos impl store (disk [json_ts, json_meeting, json_ts] n) = Inr [memo_ts, memo_meeting, memo_ts]"
  "loadMemos impl store (disk [json_ts, json_meeting] n) = Inr [memo_ts, memo_meeting]"
  "loadMemos impl store (disk [json_meeting] n) = Inr [memo_meeting]"
  "loadMemos impl store (disk [json_ts] n) = Inr [memo_ts]"
  by (simp_all add: loadMemos_def readFile_def JSON_parse_def sample_of_JSON)

text \<open>
  C1, as stated: on an existing id \<open>deleteMemo\<close> removes exactly one record, for every
  collection. It fails for a collection in which two records carry the id (\<open>addMemo\<close>
  does not look at ids): of three records, both records with the id go and one is left.
\<close>

theorem deleteMemo_removes_duplicates:
  "loadMemos standard_only store (disk [json_ts, json_meeting, json_ts] 0) =
     Inr [memo_ts, memo_meeting, memo_ts] \<and>
   deleteMemo standard_only store (disk [json_ts, json_meeting, json_ts] 0) ''memo_1000_a'' =
     Inr (True, disk [json_meeting] 1) \<and>
   loadMemos standard_only store (disk [json_meeting] 1) = Inr [memo_meeting]"
  by (simp add: sample_load deleteMemo_def saveMemos_def writeFile_def JSON_stringify_def
        sample_toJSON)

text \<open>
  C1, amended: on a collection that loads, \<open>deleteMemo\<close> on an id that no record has
  returns false and leaves the file system as it was (no write); on an id that some record
  has, and when the file can be written, it returns true and writes the collection without
  the records of that id, so the remaining count is the original count minus the number of
  records with the id: minus one when the ids of the collection are distinct.
\<close>

theorem deleteMemo_counts:
  assumes "loadMemos impl this fs = Inr memos"
  shows "(ident \<notin> id' ` set memos \<longrightarrow> deleteMemo impl this fs ident = Inr (False, fs)) \<and>
         (ident \<in> id' ` set memos \<and> writable fs \<longrightarrow>
            (\<exists>fs' memos'.
               deleteMemo impl this fs ident = Inr (True, fs') \<and>
               files fs' (filePath this) =
                 Some (JSON_stringify (filter (\<lambda>memo. id' memo \<noteq> ident) memos)) \<and>
               writes fs' = Suc (writes fs) \<and>
               loadMemos impl this fs' = Inr memos' \<and>
               map id' memos' = filter (\<lambda>i. i \<noteq> ident) (map id' memos) \<and>
               length memos' = length memos - length (filter (\<lambda>memo. id' memo = ident) memos))) \<and>
         (ident \<in> id' ` set memos \<and> \<not> writable fs \<longrightarrow>
            deleteMemo impl this fs ident = Inl Failed_to_save) \<and>
         (ident \<in> id' ` set memos \<and> distinct (map id' memos) \<longrightarrow>
            length (filter (\<lambda>memo. id' memo = ident) memos) = 1)"
proof (intro conjI impI)
  assume "ident \<notin> id' ` set memos"
  then have "filter (\<lambda>memo. id' memo \<noteq> ident) memos = memos"
    by (auto simp: filter_id_conv)
  with assms show "deleteMemo impl this fs ident = Inr (False, fs)"
    by (simp add: deleteMemo_def)
next
  assume a: "ident \<in> id' ` set memos \<and> writable fs"
  let ?rest = "filter (\<lambda>memo. id' memo \<noteq> ident) memos"
  let ?fs' = "fs \<lparr> files := (files fs)(filePath this \<mapsto> JSON_stringify ?rest),
                    writes := Suc (writes fs) \<rparr>"
  from a have "length ?rest < length memos"
    by (auto intro: length_filter_less)
  with assms a have del: "deleteMemo impl this fs ident = Inr (True, ?fs')"
    by (simp add: deleteMemo_def saveMemos_writable)
  have load: "loadMemos impl this ?fs' = Inr (map (\<lambda>m. memo_of_JSON impl (memo_toJSON m)) ?rest)"
    by (rule loadMemos_after_write)
  have ids: "map id' (map (\<lambda>m. memo_of_JSON impl (memo_toJSON m)) ?rest) =
             filter (\<lambda>i. i \<noteq> ident) (map id' memos)"
    by (simp add: id_reloaded filter_map comp_def)
  have "length ?rest + length (filter (\<lambda>memo. id' memo = ident) memos) = length memos"
    using sum_length_filter_compl [of "\<lambda>memo. id' memo = ident" memos] by simp
  then have len: "length (map (\<lambda>m. memo_of_JSON impl (memo_toJSON m)) ?rest) =
                  length memos - length (filter (\<lambda>memo. id' memo = ident) memos)"
    by simp
  from del load ids len show "\<exists>fs' memos'.
       deleteMemo impl this fs ident = Inr (True, fs') \<and>
       files fs' (filePath this) = Some (JSON_stringify ?rest) \<and>
       writes fs' = Suc (writes fs) \<and>
       loadMemos impl this fs' = Inr memos' \<and>
       map id' memos' = filter (\<lambda>i. i \<noteq> ident) (map id' memos) \<and>
       length memos' = length memos - length (filter (\<lambda>memo. id' memo = ident) memos)"
    by (intro exI [of _ ?fs'] exI [of _ "map (\<lambda>m. memo_of_JSON impl (memo_toJSON m)) ?rest"]) simp
next
  assume a: "ident \<in> id' ` set memos \<and> \<not> writable fs"
  then have "length (filter (\<lambda>memo. id' memo \<noteq> ident) memos) < length memos"
    by (auto intro: length_filter_less)
  with assms a show "deleteMemo impl this fs ident = Inl Failed_to_save"
    by (simp add: deleteMemo_def saveMemos_not_writable)
next
  assume a: "ident \<in> id' ` set memos \<and> distinct (map id' memos)"
  then have one: "length (filter (\<lambda>i. i = ident) (map id' memos)) = 1"
    by (intro distinct_once) simp_all
  have "length (filter (\<lambda>memo. id' memo = ident) memos) =
        length (filter (\<lambda>i. i = ident) (map id' memos))"
    by (induction memos) auto
  with one show "length (filter (\<lambda>memo. id' memo = ident) memos) = 1"
    by (simp only:)
qed

theorem deleteMemo_counts_witness:
  "loadMemos standard_only store (disk [json_ts, json_meeting] 0) = Inr [memo_ts, memo_meeting] \<and>
   deleteMemo standard_only store (disk [json_ts, json_meeting] 0) ''memo_0_none'' =
     Inr (False, disk [json_ts, json_meeting] 0) \<and>
   writable (disk [json_ts, json_meeting] 0) \<and>
   distinct (map id' [memo_ts, memo_meeting]) \<and>
   (\<exists>fs' memos'.
      deleteMemo standard_only store (disk [json_ts, json_meeting] 0) ''memo_2000_b'' = Inr (True, fs') \<and>
      loadMemos standard_only store fs' = Inr memos' \<and>
      length memos' = length [memo_ts, memo_meeting] - 1)"
proof -
  have load: "loadMemos standard_only store (disk [json_ts, json_meeting] 0) =
                Inr [memo_ts, memo_meeting]"
    by (rule sample_load)
  have absent: "''memo_0_none'' \<notin> id' ` set [memo_ts, memo_meeting]" by simp
  have present: "''memo_2000_b'' \<in> id' ` set [memo_ts, memo_meeting]" by simp
  have ok: "writable (disk [json_ts, json_meeting] 0)" by simp
  have ids: "distinct (map id' [memo_ts, memo_meeting])" by simp
  from deleteMemo_counts [OF load, of "''memo_0_none''"] absent
  have none: "deleteMemo standard_only store (disk [json_ts, json_meeting] 0) ''memo_0_none'' =
                Inr (False, disk [json_ts, json_meeting] 0)"
    by blast
  from deleteMemo_counts [OF load, of "''memo_2000_b''"] present ok ids
  have "\<exists>fs' memos'.
      deleteMemo standard_only store (disk [json_ts, json_meeting] 0) ''memo_2000_b'' = Inr (True, fs') \<and>
      loadMemos standard_only store fs' = Inr memos' \<and>
      length memos' = length [memo_ts, memo_meeting] - 1"
    by (metis (no_types, lifting))
  with load none ok ids show ?thesis by blast
qed

text \<open>
  C8: on a collection that loads, an id that no record has makes \<open>getMemo\<close> return \<open>null\<close>
  and \<open>updateMemo\<close> return false with the file system as it was, both as values (\<open>Inr\<close>),
  not as exceptions; an id that some record has makes \<open>getMemo\<close> return the first record
  with that id and \<open>updateMemo\<close>, when the file can be written, put the updated memo in the
  place of that record and return true.
\<close>

theorem not_found_by_return_value:
  assumes "loadMemos impl this fs = Inr memos"
  shows "(ident \<notin> id' ` set memos \<longrightarrow> getMemo impl this fs ident = Inr None) \<and>
         (id' updatedMemo \<notin> id' ` set memos \<longrightarrow>
            updateMemo_storage impl this fs updatedMemo = Inr (False, fs)) \<and>
         (ident \<in> id' ` set memos \<longrightarrow>
            (\<exists>i<length memos. getMemo impl this fs ident = Inr (Some (memos ! i)) \<and>
                id' (memos ! i) = ident \<and> (\<forall>j<i. id' (memos ! j) \<noteq> ident))) \<and>
         (id' updatedMemo \<in> id' ` set memos \<and> writable fs \<longrightarrow>
            (\<exists>i<length memos. id' (memos ! i) = id' updatedMemo \<and>
                (\<forall>j<i. id' (memos ! j) \<noteq> id' updatedMemo) \<and>
                updateMemo_storage impl this fs updatedMemo =
                  Inr (True, fs \<lparr> files := (files fs)(filePath this \<mapsto>
                                             JSON_stringify (memos[i := updatedMemo])),
                                   writes := Suc (writes fs) \<rparr>) \<and>
                loadMemos impl this
                    (fs \<lparr> files := (files fs)(filePath this \<mapsto>
                                      JSON_stringify (memos[i := updatedMemo])),
                          writes := Suc (writes fs) \<rparr>) =
                  Inr (map (\<lambda>m. memo_of_JSON impl (memo_toJSON m)) (memos[i := updatedMemo]))))"
proof (intro conjI impI)
  assume "ident \<notin> id' ` set memos"
  then have "find (\<lambda>memo. id' memo = ident) memos = None"
    by (auto simp: find_None_iff)
  with assms show "getMemo impl this fs ident = Inr None"
    by (simp add: getMemo_def)
next
  assume "id' updatedMemo \<notin> id' ` set memos"
  then have "\<forall>x\<in>set memos. id' x \<noteq> id' updatedMemo"
    by (metis imageI)
  then have "findIndex (\<lambda>memo. id' memo = id' updatedMemo) memos = - 1"
    by (simp add: findIndex_none)
  with assms show "updateMemo_storage impl this fs updatedMemo = Inr (False, fs)"
    by (simp add: updateMemo_storage_def)
next
  assume "ident \<in> id' ` set memos"
  then have "find (\<lambda>memo. id' memo = ident) memos \<noteq> None"
    by (auto simp: find_None_iff)
  then obtain m where "find (\<lambda>memo. id' memo = ident) memos = Some m" by blast
  then obtain i where "i < length memos" "id' (memos ! i) = ident" "m = memos ! i"
      "\<forall>j<i. id' (memos ! j) \<noteq> ident" and f: "find (\<lambda>memo. id' memo = ident) memos = Some (memos ! i)"
    by (auto simp: find_Some_iff)
  with assms show "\<exists>i<length memos. getMemo impl this fs ident = Inr (Some (memos ! i)) \<and>
                id' (memos ! i) = ident \<and> (\<forall>j<i. id' (memos ! j) \<noteq> ident)"
    by (auto simp: getMemo_def)
next
  assume a: "id' updatedMemo \<in> id' ` set memos \<and> writable fs"
  then have "\<exists>x\<in>set memos. id' x = id' updatedMemo" by auto
  from findIndex_first [of memos "\<lambda>memo. id' memo = id' updatedMemo", OF this]
  obtain i where i: "i < length memos"
      "findIndex (\<lambda>memo. id' memo = id' updatedMemo) memos = int i"
      "id' (memos ! i) = id' updatedMemo" "\<forall>j<i. id' (memos ! j) \<noteq> id' updatedMemo"
    by blast
  with assms a have "updateMemo_storage impl this fs updatedMemo =
      Inr (True, fs \<lparr> files := (files fs)(filePath this \<mapsto> JSON_stringify (memos[i := updatedMemo])),
                       writes := Suc (writes fs) \<rparr>)"
    by (simp add: updateMemo_storage_def saveMemos_writable)
  with i show "\<exists>i<length memos. id' (memos ! i) = id' updatedMemo \<and>
                (\<forall>j<i. id' (memos ! j) \<noteq> id' updatedMemo) \<and>
                updateMemo_storage impl this fs updatedMemo =
                  Inr (True, fs \<lparr> files := (files fs)(filePath this \<mapsto>
                                             JSON_stringify (memos[i := updatedMemo])),
                                   writes := Suc (writes fs) \<rparr>) \<and>
                loadMemos impl this
                    (fs \<lparr> files := (files fs)(filePath this \<mapsto>
                                      JSON_stringify (memos[i := updatedMemo])),
                          writes := Suc (writes fs) \<rparr>) =
                  Inr (map (\<lambda>m. memo_of_JSON impl (memo_toJSON m)) (memos[i := updatedMemo]))"
    by (intro exI [of _ i]) (simp add: loadMemos_after_write)
qed

theorem not_found_by_return_value_witness:
  "loadMemos standard_only store (disk [json_ts, json_meeting] 0) = Inr [memo_ts, memo_meeting] \<and>
   writable (disk [json_ts, json_meeting] 0) \<and>
   getMemo standard_only store (disk [json_ts, json_meeting] 0) ''memo_3000_c'' = Inr None \<and>
   updateMemo_storage standard_only store (disk [json_ts, json_meeting] 0) memo_shopping =
     Inr (False, disk [json_ts, json_meeting] 0) \<and>
   getMemo standard_only store (disk [json_ts, json_meeting] 0) ''memo_2000_b'' =
     Inr (Some memo_meeting) \<and>
   (\<exists>fs'. updateMemo_storage standard_only store (disk [json_ts, json_meeting] 0)
             (memo_meeting \<lparr> title := utf16 ''Updated'' \<rparr>) = Inr (True, fs') \<and>
          files fs' ''data/memos.json'' =
            Some (JSON_stringify [memo_ts, memo_meeting \<lparr> title := utf16 ''Updated'' \<rparr>]))"
proof -
  let ?fs = "disk [json_ts, json_meeting] 0"
  let ?u = "memo_meeting \<lparr> title := utf16 ''Updated'' \<rparr>"
  have load: "loadMemos standard_only store ?fs = Inr [memo_ts, memo_meeting]"
    by (rule sample_load)
  have ok: "writable ?fs" by simp
  note thm1 = not_found_by_return_value [OF load, of "''memo_3000_c''" memo_shopping]
  note thm2 = not_found_by_return_value [OF load, of "''memo_2000_b''" ?u]
  have ab1: "''memo_3000_c'' \<notin> id' ` set [memo_ts, memo_meeting]" by simp
  have ab2: "id' memo_shopping \<notin> id' ` set [memo_ts, memo_meeting]" by simp
  have pr1: "''memo_2000_b'' \<in> id' ` set [memo_ts, memo_meeting]" by simp
  have pr2: "id' ?u \<in> id' ` set [memo_ts, memo_meeting]" by simp
  have a1: "getMemo standard_only store ?fs ''memo_3000_c'' = Inr None"
    using thm1 ab1 by blast
  have a2: "updateMemo_storage standard_only store ?fs memo_shopping = Inr (False, ?fs)"
    using thm1 ab2 by blast
  have "\<exists>i<length [memo_ts, memo_meeting].
          getMemo standard_only store ?fs ''memo_2000_b'' = Inr (Some ([memo_ts, memo_meeting] ! i)) \<and>
          id' ([memo_ts, memo_meeting] ! i) = ''memo_2000_b'' \<and>
          (\<forall>j<i. id' ([memo_ts, memo_meeting] ! j) \<noteq> ''memo_2000_b'')"
    using thm2 pr1 by blast
  then have p1: "getMemo standard_only store ?fs ''memo_2000_b'' = Inr (Some memo_meeting)"
    by (auto simp: less_Suc_eq nth_Cons')
  have "\<exists>i<length [memo_ts, memo_meeting]. id' ([memo_ts, memo_meeting] ! i) = id' ?u \<and>
          (\<forall>j<i. id' ([memo_ts, memo_meeting] ! j) \<noteq> id' ?u) \<and>
          updateMemo_storage standard_only store ?fs ?u =
            Inr (True, ?fs \<lparr> files := (files ?fs)(filePath store \<mapsto>
                                        JSON_stringify ([memo_ts, memo_meeting][i := ?u])),
                              writes := Suc (writes ?fs) \<rparr>)"
    using thm2 pr2 ok by blast
  then have p2: "\<exists>fs'. updateMemo_storage standard_only store ?fs ?u = Inr (True, fs') \<and>
                   files fs' ''data/memos.json'' = Some (JSON_stringify [memo_ts, ?u])"
    by (auto simp: less_Suc_eq nth_Cons')
  from load ok a1 a2 p1 p2 show ?thesis by blast
qed

section \<open>Dates through the file\<close>

subsection \<open>Days and calendar dates\<close>

lemma year_parts:
  fixes era c q yr y0 :: int
  assumes "0 \<le> c" "c \<le> 3" "0 \<le> q" "q \<le> 24" "0 \<le> yr" "yr \<le> 3"
    and y0: "y0 = era * 400 + c * 100 + q * 4 + yr"
  shows "y0 * 365 + y0 div 4 - y0 div 100 + y0 div 400 =
         era * 146097 + c * 36524 + q * 1461 + yr * 365"
proof -
  have d400: "y0 div 400 = era" using assms(1-6) unfolding y0 by arith
  have d100: "y0 div 100 = era * 4 + c" using assms(1-6) unfolding y0 by arith
  have d4: "y0 div 4 = era * 100 + c * 25 + q" using assms(1-6) unfolding y0 by arith
  show ?thesis unfolding d400 d100 d4 by (simp add: y0)
qed

lemma doe_parts:
  fixes doe c doc q doq yr doy :: int
  assumes "0 \<le> doe" "doe < 146097"
    and c: "c = min 3 (doe div 36524)"
    and doc: "doc = doe - c * 36524"
    and q: "q = min 24 (doc div 1461)"
    and doq: "doq = doc - q * 1461"
    and yr: "yr = min 3 (doq div 365)"
    and doy: "doy = doq - yr * 365"
  shows "0 \<le> c \<and> c \<le> 3 \<and> 0 \<le> q \<and> q \<le> 24 \<and> 0 \<le> yr \<and> yr \<le> 3 \<and> 0 \<le> doy \<and> doy \<le> 365 \<and>
         doe = c * 36524 + q * 1461 + yr * 365 + doy"
proof -
  have c': "0 \<le> c" "c \<le> 3" using assms(1,2) by (simp_all add: c)
  have doc': "0 \<le> doc" "doc \<le> 36524" using assms(1,2) unfolding doc c by arith+
  have q': "0 \<le> q" "q \<le> 24" using doc' by (simp_all add: q)
  have doq': "0 \<le> doq" "doq \<le> 1460" using doc' unfolding doq q by arith+
  have yr': "0 \<le> yr" "yr \<le> 3" using doq' by (simp_all add: yr)
  have doy': "0 \<le> doy" "doy \<le> 365" using doq' unfolding doy yr by arith+
  have "doe = c * 36524 + q * 1461 + yr * 365 + doy"
    by (simp add: doy doq doc)
  with c' q' yr' doy' show ?thesis by simp
qed

lemma month_parts:
  fixes doy mp d :: int
  assumes "0 \<le> doy" "doy \<le> 365"
    and mp: "mp = (5 * doy + 2) div 153"
    and d: "d = doy - (153 * mp + 2) div 5 + 1"
  shows "0 \<le> mp \<and> mp \<le> 11 \<and> 1 \<le> d \<and> d \<le> 31"
proof -
  have "0 \<le> mp" "mp \<le> 11" using assms(1,2) unfolding mp by arith+
  moreover have "1 \<le> d \<and> d \<le> 31"
    using assms(1,2) unfolding d mp by arith
  ultimately show ?thesis by simp
qed

lemma civil_from_days_inverse:
  assumes "civil_from_days z = (y, m, d)"
  shows "days_from_civil y m d = z \<and> 1 \<le> m \<and> m \<le> 12 \<and> 1 \<le> d \<and> d \<le> 31 \<and>
         (z + 719468) div 146097 * 400 \<le> y \<and> y \<le> (z + 719468) div 146097 * 400 + 400"
proof -
  define z0 where "z0 = z + 719468"
  define era where "era = z0 div 146097"
  define doe where "doe = z0 mod 146097"
  define c where "c = min 3 (doe div 36524)"
  define doc where "doc = doe - c * 36524"
  define q where "q = min 24 (doc div 1461)"
  define doq where "doq = doc - q * 1461"
  define yr where "yr = min 3 (doq div 365)"
  define doy where "doy = doq - yr * 365"
  define y0 where "y0 = era * 400 + c * 100 + q * 4 + yr"
  define mp where "mp = (5 * doy + 2) div 153"
  define d' where "d' = doy - (153 * mp + 2) div 5 + 1"
  define m' where "m' = (if mp < 10 then mp + 3 else mp - 9)"
  have civ: "civil_from_days z = (if m' \<le> 2 then y0 + 1 else y0, m', d')"
    unfolding civil_from_days_def Let_def m'_def d'_def mp_def y0_def doy_def yr_def doq_def
      q_def doc_def c_def doe_def era_def z0_def by (rule refl)
  with assms have y: "y = (if m' \<le> 2 then y0 + 1 else y0)" and m: "m = m'" and d: "d = d'"
    by auto
  have doe: "0 \<le> doe" "doe < 146097" by (simp_all add: doe_def)
  from doe_parts [OF doe c_def doc_def q_def doq_def yr_def doy_def]
  have b: "0 \<le> c" "c \<le> 3" "0 \<le> q" "q \<le> 24" "0 \<le> yr" "yr \<le> 3" "0 \<le> doy" "doy \<le> 365"
    and sum: "doe = c * 36524 + q * 1461 + yr * 365 + doy" by simp_all
  from month_parts [OF b(7,8) mp_def d'_def]
  have mb: "0 \<le> mp" "mp \<le> 11" "1 \<le> d'" "d' \<le> 31" by simp_all
  have mrange: "1 \<le> m'" "m' \<le> 12" using mb(1,2) by (auto simp: m'_def)
  have back_y: "(if m \<le> 2 then y - 1 else y) = y0" by (simp add: y m)
  have back_mp: "(if m > 2 then m - 3 else m + 9) = mp" using mb(1,2) by (auto simp: m m'_def)
  have back_doy: "(153 * mp + 2) div 5 + d - 1 = doy" by (simp add: d d'_def)
  have "z0 = era * 146097 + doe" by (simp add: era_def doe_def)
  with sum year_parts [OF b(1-6) y0_def]
  have "y0 * 365 + y0 div 4 - y0 div 100 + y0 div 400 + doy - 719468 = z"
    by (simp add: z0_def)
  then have "days_from_civil y m d = z"
    unfolding days_from_civil_def Let_def back_y back_mp back_doy .
  moreover have "era * 400 \<le> y" "y \<le> era * 400 + 400"
    using b(1-6) by (auto simp: y y0_def)
  ultimately show ?thesis using mrange mb(3,4) by (simp add: m d era_def z0_def)
qed

lemma civil_year_range:
  assumes "civil_from_days z = (y, m, d)" and "\<bar>z\<bar> \<le> 100000000"
  shows "- 999999 \<le> y \<and> y \<le> 999999"
proof -
  from civil_from_days_inverse [OF assms(1)]
  have "(z + 719468) div 146097 * 400 \<le> y" "y \<le> (z + 719468) div 146097 * 400 + 400"
    by simp_all
  with assms(2) show ?thesis by arith
qed

lemma time_of_day:
  fixes t msInDay H Mi S L :: int
  assumes msInDay: "msInDay = t mod 86400000"
    and H: "H = msInDay div 3600000"
    and Mi: "Mi = msInDay div 60000 mod 60"
    and S: "S = msInDay div 1000 mod 60"
    and L: "L = msInDay mod 1000"
  shows "0 \<le> H \<and> H \<le> 23 \<and> 0 \<le> Mi \<and> Mi \<le> 59 \<and> 0 \<le> S \<and> S \<le> 59 \<and> 0 \<le> L \<and> L \<le> 999 \<and>
         t div 86400000 * 86400000 + H * 3600000 + Mi * 60000 + S * 1000 + L = t"
proof -
  define s where "s = msInDay div 1000"
  define m where "m = s div 60"
  have r: "0 \<le> msInDay" "msInDay < 86400000" by (simp_all add: msInDay)
  have mi: "msInDay div 60000 = m"
    using zdiv_zmult2_eq [of 60 msInDay 1000] by (simp add: m_def s_def)
  have h: "H = m div 60"
    using zdiv_zmult2_eq [of 60 msInDay 60000] by (simp add: H mi)
  have 1: "0 \<le> H \<and> H \<le> 23" using r unfolding H by arith
  have e1: "msInDay = s * 1000 + L" by (simp add: s_def L)
  have e2: "s = m * 60 + S" by (simp add: m_def S s_def)
  have e3: "m = H * 60 + Mi" by (simp add: h Mi mi)
  have "H * 3600000 + Mi * 60000 + S * 1000 + L = (H * 60 + Mi) * 60000 + S * 1000 + L"
    by simp
  also have "\<dots> = (m * 60 + S) * 1000 + L" using e3 by simp
  also have "\<dots> = msInDay" using e2 e1 by simp
  finally have 5: "H * 3600000 + Mi * 60000 + S * 1000 + L = msInDay" .
  have 6: "t div 86400000 * 86400000 + msInDay = t" by (simp add: msInDay)
  have 2: "0 \<le> Mi \<and> Mi \<le> 59" by (simp add: Mi)
  have 3: "0 \<le> S \<and> S \<le> 59" by (simp add: S)
  have 4: "0 \<le> L \<and> L \<le> 999" by (simp add: L)
  from 5 6 have "t div 86400000 * 86400000 + H * 3600000 + Mi * 60000 + S * 1000 + L = t"
    by linarith
  with 1 2 3 4 show ?thesis by blast
qed

subsection \<open>Reading back what \<open>toISOString\<close> wrote\<close>

lemma digits_val_one_digit: "k < 10 \<Longrightarrow> digits_val [digit_char k] = Some k"
  by (simp add: digits_val_def digit_val_digit)

lemma snoc_val:
  "digits_val ds = Some (n div 10) \<Longrightarrow> digits_val (ds @ [digit_char (n mod 10)]) = Some n"
  by (simp add: digits_val_snoc digit_val_digit)

lemma div_div_nat: "n div a div b = n div (a * b)" for n a b :: nat
  by (simp add: div_mult2_eq)

lemma pad2_val: "n < 100 \<Longrightarrow> digits_val (pad2 n) = Some n"
proof -
  assume n: "n < 100"
  then have "n div 10 < 10" by simp
  then have "digits_val [digit_char (n div 10 mod 10)] = Some (n div 10)"
    by (simp add: digits_val_one_digit)
  from snoc_val [OF this] show ?thesis by (simp add: pad2_def)
qed

lemma pad3_val: "n < 1000 \<Longrightarrow> digits_val (pad3 n) = Some n"
proof -
  assume n: "n < 1000"
  then have "n div 10 < 100" by simp
  then have "digits_val (pad2 (n div 10)) = Some (n div 10)" by (rule pad2_val)
  from snoc_val [OF this] show ?thesis by (simp add: pad3_def pad2_def div_div_nat)
qed

lemma pad4_val: "n < 10000 \<Longrightarrow> digits_val (pad4 n) = Some n"
proof -
  assume n: "n < 10000"
  then have "n div 10 < 1000" by simp
  then have "digits_val (pad3 (n div 10)) = Some (n div 10)" by (rule pad3_val)
  from snoc_val [OF this] show ?thesis by (simp add: pad4_def pad3_def pad2_def div_div_nat)
qed

lemma pad6_val: "n < 1000000 \<Longrightarrow> digits_val (pad6 n) = Some n"
proof -
  assume n: "n < 1000000"
  then have "n div 100 < 10000" by simp
  then have "digits_val (pad4 (n div 100)) = Some (n div 100)" by (rule pad4_val)
  then have "digits_val (pad4 (n div 100)) = Some (n div 10 div 10)" by (simp add: div_div_nat)
  from snoc_val [OF snoc_val [OF this]] show ?thesis
    by (simp add: pad6_def pad4_def pad3_def pad2_def div_div_nat)
qed

lemma pad_length [simp]:
  "length (pad2 n) = 2" "length (pad3 n) = 3" "length (pad4 n) = 4" "length (pad6 n) = 6"
  by (simp_all add: pad2_def pad3_def pad4_def pad6_def)

lemma digit_char_not_sign: "k < 10 \<Longrightarrow> digit_char k \<noteq> CHR ''+'' \<and> digit_char k \<noteq> CHR ''-''"
  using of_char_digit_char [of k] by auto

lemma length2E: "length A = 2 \<Longrightarrow> \<exists>a b. A = [a, b]"
  by (auto simp: length_Suc_conv numeral_2_eq_2)

lemma length3E: "length A = 3 \<Longrightarrow> \<exists>a b c. A = [a, b, c]"
  by (auto simp: length_Suc_conv numeral_3_eq_3)

lemma time_string_shape:
  assumes "length A = 2" "length B = 2" "length C = 2" "length D = 2" "length E = 2" "length F = 3"
    and r: "r = ''-'' @ A @ ''-'' @ B @ ''T'' @ C @ '':'' @ D @ '':'' @ E @ ''.'' @ F @ ''Z''"
  shows "length r = 20 \<and> r ! 0 = CHR ''-'' \<and> r ! 3 = CHR ''-'' \<and> r ! 6 = CHR ''T'' \<and>
         r ! 9 = CHR '':'' \<and> r ! 12 = CHR '':'' \<and> r ! 15 = CHR ''.'' \<and> r ! 19 = CHR ''Z'' \<and>
         take 2 (drop 1 r) = A \<and> take 2 (drop 4 r) = B \<and> take 2 (drop 7 r) = C \<and>
         take 2 (drop 10 r) = D \<and> take 2 (drop 13 r) = E \<and> take 3 (drop 16 r) = F"
proof -
  from assms(1-6) length2E length3E obtain a1 a2 b1 b2 c1 c2 d1 d2 e1 e2 f1 f2 f3
    where "A = [a1, a2]" "B = [b1, b2]" "C = [c1, c2]" "D = [d1, d2]" "E = [e1, e2]"
      "F = [f1, f2, f3]" by metis
  then show ?thesis by (simp add: r)
qed

lemma parse_ISO_shape:
  assumes shape: "length r = 20 \<and> r ! 0 = CHR ''-'' \<and> r ! 3 = CHR ''-'' \<and> r ! 6 = CHR ''T'' \<and>
         r ! 9 = CHR '':'' \<and> r ! 12 = CHR '':'' \<and> r ! 15 = CHR ''.'' \<and> r ! 19 = CHR ''Z'' \<and>
         take 2 (drop 1 r) = A \<and> take 2 (drop 4 r) = B \<and> take 2 (drop 7 r) = C \<and>
         take 2 (drop 10 r) = D \<and> take 2 (drop 13 r) = E \<and> take 3 (drop 16 r) = F"
    and vals: "digits_val A = Some m" "digits_val B = Some d" "digits_val C = Some h"
      "digits_val D = Some mi" "digits_val E = Some sec" "digits_val F = Some ms"
    and head: "(case s of [] \<Rightarrow> False | c # _ \<Rightarrow> c = CHR ''+'' \<or> c = CHR ''-'') = has_sign"
      "(case s of [] \<Rightarrow> False | c # _ \<Rightarrow> c = CHR ''-'') = negative"
    and year: "(if has_sign then take 6 (drop 1 s) else take 4 s) = Y" "digits_val Y = Some yn"
    and rest: "(if has_sign then drop 7 s else drop 4 s) = r"
    and y: "y = (if negative then - int yn else int yn)" "\<not> (negative \<and> yn = 0)"
    and legal: "h \<le> 23" "mi \<le> 59" "sec \<le> 59"
      "civil_from_days (days_from_civil y (int m) (int d)) = (y, int m, int d)"
  shows "parse_ISO s =
         Some (days_from_civil y (int m) (int d) * 86400000 + int h * 3600000 +
               int mi * 60000 + int sec * 1000 + int ms)"
proof -
  from shape have sh: "length r = 20" "r ! 0 = CHR ''-''" "r ! 3 = CHR ''-''" "r ! 6 = CHR ''T''"
      "r ! 9 = CHR '':''" "r ! 12 = CHR '':''" "r ! 15 = CHR ''.''" "r ! 19 = CHR ''Z''"
      "take 2 (drop 1 r) = A" "take 2 (drop 4 r) = B" "take 2 (drop 7 r) = C"
      "take 2 (drop 10 r) = D" "take 2 (drop 13 r) = E" "take 3 (drop 16 r) = F"
    by simp_all
  show ?thesis
    unfolding parse_ISO_def head year rest Let_def sh vals
    using y legal by simp
qed

lemma digit_char_mod_not_sign:
  "digit_char (k mod 10) \<noteq> CHR ''+''" "digit_char (k mod 10) \<noteq> CHR ''-''"
  using digit_char_not_sign [of "k mod 10"] by simp_all

lemma parse_ISO_toISOString:
  assumes range: "\<bar>t\<bar> \<le> 8640000000000000"
  shows "parse_ISO (toISOString t) = Some t"
proof -
  define z where "z = t div 86400000"
  define msInDay where "msInDay = t mod 86400000"
  define H where "H = msInDay div 3600000"
  define Mi where "Mi = msInDay div 60000 mod 60"
  define S where "S = msInDay div 1000 mod 60"
  define L where "L = msInDay mod 1000"
  define h where "h = nat H"
  define mi where "mi = nat Mi"
  define sec where "sec = nat S"
  define ms where "ms = nat L"
  obtain y m d where civ: "civil_from_days z = (y, m, d)"
    by (cases "civil_from_days z") auto
  define year where "year = (if 0 \<le> y \<and> y \<le> 9999 then pad4 (nat y)
                             else (if y < 0 then CHR ''-'' else CHR ''+'') # pad6 (nat \<bar>y\<bar>))"
  define r where "r = ''-'' @ pad2 (nat m) @ ''-'' @ pad2 (nat d) @ ''T'' @ pad2 h @ '':'' @
                      pad2 mi @ '':'' @ pad2 sec @ ''.'' @ pad3 ms @ ''Z''"
  have iso: "toISOString t = year @ r"
    unfolding toISOString_def Let_def z_def [symmetric] civ msInDay_def [symmetric]
    by (simp add: year_def r_def h_def mi_def sec_def ms_def H_def Mi_def S_def L_def)
  have zr: "\<bar>z\<bar> \<le> 100000000" using range unfolding z_def by arith
  from civil_from_days_inverse [OF civ]
  have inv: "days_from_civil y m d = z" and md: "1 \<le> m" "m \<le> 12" "1 \<le> d" "d \<le> 31"
    by simp_all
  from civil_year_range [OF civ zr] have yr: "- 999999 \<le> y" "y \<le> 999999" by simp_all
  from time_of_day [OF msInDay_def H_def Mi_def S_def L_def]
  have tod: "0 \<le> H" "H \<le> 23" "0 \<le> Mi" "Mi \<le> 59" "0 \<le> S" "S \<le> 59" "0 \<le> L" "L \<le> 999"
    and sum: "z * 86400000 + H * 3600000 + Mi * 60000 + S * 1000 + L = t"
    by (simp_all add: z_def)
  have shape: "length r = 20 \<and> r ! 0 = CHR ''-'' \<and> r ! 3 = CHR ''-'' \<and> r ! 6 = CHR ''T'' \<and>
         r ! 9 = CHR '':'' \<and> r ! 12 = CHR '':'' \<and> r ! 15 = CHR ''.'' \<and> r ! 19 = CHR ''Z'' \<and>
         take 2 (drop 1 r) = pad2 (nat m) \<and> take 2 (drop 4 r) = pad2 (nat d) \<and>
         take 2 (drop 7 r) = pad2 h \<and> take 2 (drop 10 r) = pad2 mi \<and>
         take 2 (drop 13 r) = pad2 sec \<and> take 3 (drop 16 r) = pad3 ms"
    by (rule time_string_shape [OF _ _ _ _ _ _ r_def]) simp_all
  have vals: "digits_val (pad2 (nat m)) = Some (nat m)" "digits_val (pad2 (nat d)) = Some (nat d)"
      "digits_val (pad2 h) = Some h" "digits_val (pad2 mi) = Some mi"
      "digits_val (pad2 sec) = Some sec" "digits_val (pad3 ms) = Some ms"
    using md tod by (simp_all add: pad2_val pad3_val h_def mi_def sec_def ms_def)
  have legal: "h \<le> 23" "mi \<le> 59" "sec \<le> 59"
    using tod by (simp_all add: h_def mi_def sec_def)
  have civ': "civil_from_days (days_from_civil y (int (nat m)) (int (nat d))) =
              (y, int (nat m), int (nat d))"
    using md inv civ by simp
  have total: "days_from_civil y (int (nat m)) (int (nat d)) * 86400000 + int h * 3600000 +
               int mi * 60000 + int sec * 1000 + int ms = t"
    using md tod inv sum by (simp add: h_def mi_def sec_def ms_def)
  have "parse_ISO (year @ r) =
         Some (days_from_civil y (int (nat m)) (int (nat d)) * 86400000 + int h * 3600000 +
               int mi * 60000 + int sec * 1000 + int ms)"
  proof (cases "0 \<le> y \<and> y \<le> 9999")
    case True
    then have year: "year = pad4 (nat y)" by (simp add: year_def)
    have first: "year @ r = digit_char (nat y div 1000 mod 10) # pad3 (nat y) @ r"
      by (simp add: year pad4_def)
    show ?thesis
    proof (rule parse_ISO_shape [OF shape vals, where has_sign = False and negative = False
             and Y = "pad4 (nat y)" and yn = "nat y"])
      show "(case year @ r of [] \<Rightarrow> False | c # _ \<Rightarrow> c = CHR ''+'' \<or> c = CHR ''-'') = False"
        by (simp add: first digit_char_mod_not_sign)
      show "(case year @ r of [] \<Rightarrow> False | c # _ \<Rightarrow> c = CHR ''-'') = False"
        by (simp add: first digit_char_mod_not_sign)
      show "(if False then take 6 (drop 1 (year @ r)) else take 4 (year @ r)) = pad4 (nat y)"
        by (simp add: year)
      show "digits_val (pad4 (nat y)) = Some (nat y)"
        using True by (intro pad4_val) arith
      show "(if False then drop 7 (year @ r) else drop 4 (year @ r)) = r"
        by (simp add: year)
      show "y = (if False then - int (nat y) else int (nat y))" using True by simp
      show "\<not> (False \<and> nat y = 0)" by simp
    qed (use legal civ' in simp_all)
  next
    case False
    define sign where "sign = (if y < 0 then CHR ''-'' else CHR ''+'')"
    have year: "year = sign # pad6 (nat \<bar>y\<bar>)"
      unfolding year_def sign_def by (simp only: False if_False)
    show ?thesis
    proof (rule parse_ISO_shape [OF shape vals, where has_sign = True and negative = "y < 0"
             and Y = "pad6 (nat \<bar>y\<bar>)" and yn = "nat \<bar>y\<bar>"])
      show "(case year @ r of [] \<Rightarrow> False | c # _ \<Rightarrow> c = CHR ''+'' \<or> c = CHR ''-'') = True"
        by (simp add: year sign_def)
      show "(case year @ r of [] \<Rightarrow> False | c # _ \<Rightarrow> c = CHR ''-'') = (y < 0)"
        by (simp add: year sign_def)
      show "(if True then take 6 (drop 1 (year @ r)) else take 4 (year @ r)) = pad6 (nat \<bar>y\<bar>)"
        by (simp add: year)
      show "digits_val (pad6 (nat \<bar>y\<bar>)) = Some (nat \<bar>y\<bar>)"
        using yr by (intro pad6_val) arith
      show "(if True then drop 7 (year @ r) else drop 4 (year @ r)) = r"
        by (simp add: year)
      show "y = (if y < 0 then - int (nat \<bar>y\<bar>) else int (nat \<bar>y\<bar>))" by simp
      show "\<not> (y < 0 \<and> nat \<bar>y\<bar> = 0)" by simp
    qed (use legal civ' in simp_all)
  qed
  with iso total show ?thesis by simp
qed

lemma date_roundtrip: "valid_date d \<Longrightarrow> Date_of_JSON impl (Date_toJSON d) = d"
  by (cases d)
     (simp_all add: valid_date_def Date_of_JSON_def Date_toJSON_def Date_parse_def
        parse_ISO_toISOString TimeClip_def)

lemma memo_roundtrip:
  "valid_date (createdAt m) \<Longrightarrow> valid_date (updatedAt m) \<Longrightarrow> memo_of_JSON impl (memo_toJSON m) = m"
  by (simp add: memo_of_JSON_def memo_toJSON_def date_roundtrip)

subsection \<open>Saving and loading\<close>

text \<open>
  C3, as stated: for every collection of memos, saving and loading gives the collection
  back. It fails for a memo that carries an Invalid Date: \<open>JSON.stringify\<close> writes the
  date as \<open>null\<close>, and \<open>new Date(null)\<close> on loading is the epoch.
\<close>

theorem save_load_invalid_date:
  "saveMemos store (disk [] 0) [memo_undated] = Inr (disk [json_undated] 1) \<and>
   loadMemos standard_only store (disk [json_undated] 1) =
     Inr [\<lparr> title = utf16 ''Meeting Notes'', content = utf16 ''Discuss project timeline'',
            tags = [utf16 ''work''], id' = ''memo_2000_b'',
            createdAt = Date 0, updatedAt = Date 0 \<rparr>] \<and>
   loadMemos standard_only store (disk [json_undated] 1) \<noteq> Inr [memo_undated]"
  by (simp add: saveMemos_def writeFile_def JSON_stringify_def memo_toJSON_def Date_toJSON_def
        loadMemos_def readFile_def JSON_parse_def memo_of_JSON_def Date_of_JSON_def)

text \<open>
  C3, amended: for every collection of memos whose \<open>createdAt\<close> and \<open>updatedAt\<close> are valid
  dates (a time value in the range of a Date), and when the file can be written, saving the
  collection (dates as ISO-8601 strings) and loading it back (whatever the implementation
  does with strings outside the standard format) yields the collection itself; saving what
  was loaded writes the same document again.
\<close>

theorem save_load_roundtrip:
  assumes "\<forall>m \<in> set memos. valid_date (createdAt m) \<and> valid_date (updatedAt m)"
    and "writable fs"
  shows "\<exists>fs'. saveMemos this fs memos = Inr fs' \<and>
               files fs' (filePath this) = Some (JSON_stringify memos) \<and>
               loadMemos impl this fs' = Inr memos \<and>
               saveMemos this fs' memos = Inr (fs' \<lparr> writes := Suc (writes fs') \<rparr>)"
proof -
  let ?fs' = "fs \<lparr> files := (files fs)(filePath this \<mapsto> JSON_stringify memos),
                    writes := Suc (writes fs) \<rparr>"
  from assms(2) have save: "saveMemos this fs memos = Inr ?fs'"
    by (rule saveMemos_writable)
  from assms(1) have "map (\<lambda>m. memo_of_JSON impl (memo_toJSON m)) memos = memos"
    by (simp add: map_idI memo_roundtrip)
  then have load: "loadMemos impl this ?fs' = Inr memos"
    by (simp add: loadMemos_after_write)
  from assms(2) have again: "saveMemos this ?fs' memos = Inr (?fs' \<lparr> writes := Suc (writes ?fs') \<rparr>)"
    by (simp add: saveMemos_def writeFile_def)
  from save load again show ?thesis by (intro exI [of _ ?fs']) simp
qed

theorem save_load_roundtrip_witness:
  "valid_date (createdAt memo_ts) \<and> valid_date (updatedAt memo_ts) \<and>
   valid_date (createdAt memo_meeting) \<and> valid_date (updatedAt memo_meeting) \<and>
   writable (disk [] 0) \<and>
   (\<exists>fs'. saveMemos store (disk [] 0) [memo_ts, memo_meeting] = Inr fs' \<and>
          files fs' ''data/memos.json'' = Some (JSON [json_ts, json_meeting]) \<and>
          loadMemos standard_only store fs' = Inr [memo_ts, memo_meeting])"
proof -
  have dates: "\<forall>m \<in> set [memo_ts, memo_meeting]. valid_date (createdAt m) \<and> valid_date (updatedAt m)"
    by (simp add: valid_date_def)
  have ok: "writable (disk [] 0)" by simp
  from save_load_roundtrip [OF dates ok, of store standard_only]
  obtain fs' where fs': "saveMemos store (disk [] 0) [memo_ts, memo_meeting] = Inr fs'"
      "files fs' (filePath store) = Some (JSON_stringify [memo_ts, memo_meeting])"
      "loadMemos standard_only store fs' = Inr [memo_ts, memo_meeting]"
    by blast
  from fs'(2) have "files fs' ''data/memos.json'' = Some (JSON [json_ts, json_meeting])"
    by (simp add: JSON_stringify_def sample_toJSON)
  with fs'(1,3) have "\<exists>fs'. saveMemos store (disk [] 0) [memo_ts, memo_meeting] = Inr fs' \<and>
          files fs' ''data/memos.json'' = Some (JSON [json_ts, json_meeting]) \<and>
          loadMemos standard_only store fs' = Inr [memo_ts, memo_meeting]"
    by blast
  moreover have "valid_date (createdAt memo_ts) \<and> valid_date (updatedAt memo_ts) \<and>
     valid_date (createdAt memo_meeting) \<and> valid_date (updatedAt memo_meeting)"
    using dates by simp
  ultimately show ?thesis using ok by blast
qed

end
